theory Spec2Isabelle
  imports Main
begin

section \<open>Strings\<close>

text \<open>
  A JavaScript string is modelled as a \<^typ>\<open>string\<close>: a list of code units, each below 256.
  The functions of this section are the library string operations the program calls.
\<close>

abbreviation NL :: string where
  "NL \<equiv> [CHR 0x0A]"

abbreviation CR :: string where
  "CR \<equiv> [CHR 0x0D]"

text \<open>The ECMAScript line terminators and white space among the code units below 256.\<close>

definition isLineTerminator :: "char \<Rightarrow> bool" where
  "isLineTerminator c \<longleftrightarrow> c = CHR 0x0A \<or> c = CHR 0x0D"

definition isWhiteSpace :: "char \<Rightarrow> bool" where
  "isWhiteSpace c \<longleftrightarrow>
     c = CHR 0x09 \<or> c = CHR 0x0A \<or> c = CHR 0x0B \<or> c = CHR 0x0C \<or> c = CHR 0x0D \<or>
     c = CHR 0x20 \<or> c = CHR 0xA0"

text \<open>\<^verbatim>\<open>s.split("\n")\<close>: never the empty list.\<close>

fun split_nl :: "string \<Rightarrow> string list" where
  "split_nl [] = [[]]"
| "split_nl (c # cs) =
     (if c = CHR 0x0A then [] # split_nl cs
      else (case split_nl cs of [] \<Rightarrow> [[c]] | l # ls \<Rightarrow> (c # l) # ls))"

text \<open>\<^verbatim>\<open>lines.join("\n")\<close>\<close>

fun join_nl :: "string list \<Rightarrow> string" where
  "join_nl [] = []"
| "join_nl [l] = l"
| "join_nl (l # m # ls) = l @ NL @ join_nl (m # ls)"

definition trimStart :: "string \<Rightarrow> string" where
  "trimStart s = dropWhile isWhiteSpace s"

definition trimRight :: "string \<Rightarrow> string" where
  "trimRight s = rev (dropWhile isWhiteSpace (rev s))"

definition trim :: "string \<Rightarrow> string" where
  "trim s = trimRight (trimStart s)"

definition startsWith :: "string \<Rightarrow> string \<Rightarrow> bool" where
  "startsWith s p \<longleftrightarrow> take (length p) s = p"

definition endsWith :: "string \<Rightarrow> string \<Rightarrow> bool" where
  "endsWith s p \<longleftrightarrow> length p \<le> length s \<and> drop (length s - length p) s = p"

text \<open>\<^verbatim>\<open>String(n)\<close> for a natural number: its decimal digits.\<close>

fun string_of_nat :: "nat \<Rightarrow> string" where
  "string_of_nat n =
     (if n < 10 then [''0123456789'' ! n]
      else string_of_nat (n div 10) @ [''0123456789'' ! (n mod 10)])"

text \<open>
  Truthiness of an optional string: \<^verbatim>\<open>undefined\<close> and the empty string are falsy.
  \<^verbatim>\<open>String(undefined)\<close> is the nine characters \<^verbatim>\<open>undefined\<close>.
\<close>

definition truthy :: "string option \<Rightarrow> bool" where
  "truthy v \<longleftrightarrow> (case v of None \<Rightarrow> False | Some s \<Rightarrow> s \<noteq> [])"

definition String_of :: "string option \<Rightarrow> string" where
  "String_of v = (case v of None \<Rightarrow> ''undefined'' | Some s \<Rightarrow> s)"

section \<open>License templates\<close>

text \<open>
  \<^verbatim>\<open>CopyrightMap\<close>: a map from the license label to a function of holder and year. Each
  template literal is written as its lines, joined with line feeds.
\<close>

definition apache :: "string \<Rightarrow> string \<Rightarrow> string" where
  "apache holder year = join_nl
    [''Copyright '' @ year @ '' '' @ holder,
     '''',
     ''Licensed under the Apache License, Version 2.0 (the '' @ [CHR 0x22] @ ''License'' @ [CHR 0x22] @ '');'',
     ''you may not use this file except in compliance with the License.'',
     ''You may obtain a copy of the License at'',
     '''',
     ''     https://www.apache.org/licenses/LICENSE-2.0'',
     '''',
     ''Unless required by applicable law or agreed to in writing, software'',
     ''distributed under the License is distributed on an '' @ [CHR 0x22] @ ''AS IS'' @ [CHR 0x22] @ '' BASIS,'',
     ''WITHOUT WARRANTIES OR CONDITIONS OF ANY KIND, either express or implied.'',
     ''See the License for the specific language governing permissions and'',
     ''limitations under the License.'']"

definition bsd :: "string \<Rightarrow> string \<Rightarrow> string" where
  "bsd holder year = join_nl
    [''Copyright (c) '' @ year @ '' '' @ holder @ '' All rights reserved.'',
     ''Use of this source code is governed by a BSD-style'',
     ''license that can be found in the LICENSE file.'']"

definition mit :: "string \<Rightarrow> string \<Rightarrow> string" where
  "mit holder year = join_nl
    [''Copyright (c) '' @ year @ '' '' @ holder,
     '''',
     ''Permission is hereby granted, free of charge, to any person obtaining a copy of'',
     ''this software and associated documentation files (the '' @ [CHR 0x22] @ ''Software'' @ [CHR 0x22] @ ''), to deal in'',
     ''the Software without restriction, including without limitation the rights to'',
     ''use, copy, modify, merge, publish, distribute, sublicense, and/or sell copies of'',
     ''the Software, and to permit persons to whom the Software is furnished to do so,'',
     ''subject to the following conditions:'',
     '''',
     ''The above copyright notice and this permission notice shall be included in all'',
     ''copies or substantial portions of the Software.'',
     '''',
     ''THE SOFTWARE IS PROVIDED '' @ [CHR 0x22] @ ''AS IS'' @ [CHR 0x22] @ '', WITHOUT WARRANTY OF ANY KIND, EXPRESS OR'',
     ''IMPLIED, INCLUDING BUT NOT LIMITED TO THE WARRANTIES OF MERCHANTABILITY, FITNESS'',
     ''FOR A PARTICULAR PURPOSE AND NONINFRINGEMENT. IN NO EVENT SHALL THE AUTHORS OR'',
     ''COPYRIGHT HOLDERS BE LIABLE FOR ANY CLAIM, DAMAGES OR OTHER LIABILITY, WHETHER'',
     ''IN AN ACTION OF CONTRACT, TORT OR OTHERWISE, ARISING FROM, OUT OF OR IN'',
     ''CONNECTION WITH THE SOFTWARE OR THE USE OR OTHER DEALINGS IN THE SOFTWARE.'']"

definition gpl3 :: "string \<Rightarrow> string \<Rightarrow> string" where
  "gpl3 holder year = join_nl
    [''Copyright (c) '' @ year @ '' '' @ holder,
     '''',
     ''This program is free software: you can redistribute it and/or modify'',
     ''it under the terms of the GNU General Public License as published by'',
     ''the Free Software Foundation, either version 3 of the License, or'',
     ''(at your option) any later version.'',
     '''',
     ''This program is distributed in the hope that it will be useful,'',
     ''but WITHOUT ANY WARRANTY; without even the implied warranty of'',
     ''MERCHANTABILITY or FITNESS FOR A PARTICULAR PURPOSE.  See the'',
     ''GNU General Public License for more details.'',
     '''',
     ''You should have received a copy of the GNU General Public License'',
     ''along with this program.  If not, see <https://www.gnu.org/licenses/>.'']"

definition CopyrightMap :: "string \<Rightarrow> (string \<Rightarrow> string \<Rightarrow> string) option" where
  "CopyrightMap = map_of
     [(''apache'', apache), (''bsd'', bsd), (''mit'', mit), (''gpl3'', gpl3)]"

section \<open>Data\<close>

text \<open>Every \<^verbatim>\<open>throw\<close> of the program and of the library calls it makes is a value.\<close>

datatype error = SyntaxError | TypeError | OtherError

text \<open>
  \<^verbatim>\<open>class CopyrightData\<close>: the fields start at their defaults; the constructor overwrites a
  field when its argument is truthy. The default of \<^verbatim>\<open>year\<close> is the current year, which
  the model takes as an argument.
\<close>

record CopyrightData =
  holder :: string
  year :: string

definition new_CopyrightData :: "nat \<Rightarrow> string \<Rightarrow> string option \<Rightarrow> CopyrightData" where
  "new_CopyrightData fullYear h y =
     (let this = \<lparr>holder = ''Google LLC'', year = string_of_nat fullYear\<rparr>;
          this = (if h \<noteq> [] then this\<lparr>holder := h\<rparr> else this);
          this = (if truthy y then this\<lparr>year := the y\<rparr> else this)
      in this)"

text \<open>\<^verbatim>\<open>vscode.CommentRule\<close> and \<^verbatim>\<open>vscode.LanguageConfiguration\<close>, both with optional fields.\<close>

record CommentRule =
  lineComment :: "string option"
  blockComment :: "(string \<times> string) option"

record LanguageConfiguration =
  comments :: "CommentRule option"

section \<open>Header formatter\<close>

definition formatString :: "string \<Rightarrow> string \<Rightarrow> string \<Rightarrow> string \<Rightarrow> string" where
  "formatString header first_line prefix last_line =
     (let result = [];
          result = (if first_line \<noteq> [] then result @ first_line @ NL else result);
          result = foldl (\<lambda>result line. result @ trimRight (prefix @ line) @ NL)
                     result (split_nl header);
          result = (if last_line \<noteq> [] then result @ last_line @ NL else result)
      in result @ NL)"

text \<open>Reading \<^verbatim>\<open>c!.blockComment\<close> when \<^verbatim>\<open>language.comments\<close> is undefined throws a TypeError.\<close>

definition formatHeader ::
  "(string \<Rightarrow> string \<Rightarrow> string) \<Rightarrow> CopyrightData \<Rightarrow> LanguageConfiguration \<Rightarrow> bool \<Rightarrow> error + string"
where
  "formatHeader template data language useLineComment =
     (let header = template (holder data) (year data) in
      case comments language of
        None \<Rightarrow> Inl TypeError
      | Some c \<Rightarrow>
          if \<not> useLineComment \<and> blockComment c \<noteq> None then
            (case the (blockComment c) of (b0, b1) \<Rightarrow>
               if b0 = ''/*'' then Inr (formatString header (b0 @ ''*'') '' * '' ('' '' @ b1))
               else Inr (formatString header b0 [] b1))
          else if truthy (lineComment c) then
            Inr (formatString header [] (the (lineComment c) @ '' '') [])
          else Inr (formatString header [] [] []))"

section \<open>Regular expressions\<close>

text \<open>
  The program builds two patterns itself, both \<^verbatim>\<open>^\<close>, an escaped comment token, \<^verbatim>\<open>.*\<close> and the
  word \<^verbatim>\<open>Copyright\<close>. The model interprets the fragment of the pattern syntax they are written
  in: the assertion \<^verbatim>\<open>^\<close>, the dot, a pattern character, a backslash before a punctuation
  character, and the quantifier \<^verbatim>\<open>*\<close>. A pattern outside the fragment is answered with
  \<^term>\<open>Inl SyntaxError\<close>.
\<close>

datatype atom = AChar char | ADot

datatype token = TBol | TStar | TAtom atom

datatype item = Bol | One atom | Star atom

record RegExp =
  items :: "item list"
  ignoreCase :: bool
  multiline :: bool
  dotAll :: bool

definition isSyntaxCharacter :: "char \<Rightarrow> bool" where
  "isSyntaxCharacter c \<longleftrightarrow> c \<in> set ''^$.*+?()[]{}|'' \<or> c = CHR 0x5C"

fun lex :: "string \<Rightarrow> token list option" where
  "lex [] = Some []"
| "lex (c # cs) =
     (if c = CHR 0x5C then
        (case cs of
           [] \<Rightarrow> None
         | d # ds \<Rightarrow>
             if isSyntaxCharacter d \<or> d = CHR ''/'' \<or> d = CHR ''-''
             then map_option (Cons (TAtom (AChar d))) (lex ds) else None)
      else if c = CHR ''^'' then map_option (Cons TBol) (lex cs)
      else if c = CHR ''*'' then map_option (Cons TStar) (lex cs)
      else if c = CHR ''.'' then map_option (Cons (TAtom ADot)) (lex cs)
      else if isSyntaxCharacter c then None
      else map_option (Cons (TAtom (AChar c))) (lex cs))"

fun build :: "token list \<Rightarrow> item list option" where
  "build [] = Some []"
| "build (TAtom a # TStar # ts) = map_option (Cons (Star a)) (build ts)"
| "build (TAtom a # ts) = map_option (Cons (One a)) (build ts)"
| "build (TBol # ts) = map_option (Cons Bol) (build ts)"
| "build (TStar # ts) = None"

text \<open>\<^verbatim>\<open>new RegExp(pattern, flags)\<close>\<close>

definition RegExp_new :: "string \<Rightarrow> string \<Rightarrow> error + RegExp" where
  "RegExp_new pattern flags =
     (case Option.bind (lex pattern) build of
        None \<Rightarrow> Inl SyntaxError
      | Some is \<Rightarrow>
          Inr \<lparr>items = is, ignoreCase = (CHR ''i'' \<in> set flags),
               multiline = (CHR ''m'' \<in> set flags), dotAll = (CHR ''s'' \<in> set flags)\<rparr>)"

text \<open>
  Case folding of one code unit, as the Canonicalize operation of the language does it with
  \<^verbatim>\<open>toUpperCase\<close>: the letters a to z, and the Latin-1 letters from 0xE0 to 0xFE but 0xF7, have
  their capital 32 below. The capitals of 0xB5 and 0xFF lie above 255 and are the capital of no
  other code unit, and the capital of 0xDF is two characters long, so these three stay.
\<close>

definition toUpperCase_unit :: "char \<Rightarrow> char" where
  "toUpperCase_unit c =
     (let n = (of_char c :: nat) in
      if (97 \<le> n \<and> n \<le> 122) \<or> (224 \<le> n \<and> n \<le> 254 \<and> n \<noteq> 247)
      then char_of (n - 32) else c)"

definition canonicalize :: "RegExp \<Rightarrow> char \<Rightarrow> char" where
  "canonicalize re c = (if ignoreCase re then toUpperCase_unit c else c)"

fun atom_matches :: "RegExp \<Rightarrow> atom \<Rightarrow> char \<Rightarrow> bool" where
  "atom_matches re (AChar c) x \<longleftrightarrow> canonicalize re c = canonicalize re x"
| "atom_matches re ADot x \<longleftrightarrow> dotAll re \<or> \<not> isLineTerminator x"

text \<open>
  Whether the items match at a position: \<open>prev\<close> is the character before the position
  (\<^term>\<open>None\<close> at the start of the input), \<open>s\<close> the input from the position on.
\<close>

fun match_here :: "RegExp \<Rightarrow> item list \<Rightarrow> char option \<Rightarrow> string \<Rightarrow> bool" where
  "match_here re [] prev s \<longleftrightarrow> True"
| "match_here re (Bol # r) prev s \<longleftrightarrow>
     (case prev of None \<Rightarrow> True | Some p \<Rightarrow> multiline re \<and> isLineTerminator p) \<and>
     match_here re r prev s"
| "match_here re (One a # r) prev [] \<longleftrightarrow> False"
| "match_here re (One a # r) prev (x # xs) \<longleftrightarrow>
     atom_matches re a x \<and> match_here re r (Some x) xs"
| "match_here re (Star a # r) prev [] \<longleftrightarrow> match_here re r prev []"
| "match_here re (Star a # r) prev (x # xs) \<longleftrightarrow>
     (atom_matches re a x \<and> match_here re (Star a # r) (Some x) xs) \<or>
     match_here re r prev (x # xs)"

text \<open>The search for a match from each position in turn.\<close>

fun search :: "RegExp \<Rightarrow> char option \<Rightarrow> string \<Rightarrow> bool" where
  "search re prev [] \<longleftrightarrow> match_here re (items re) prev []"
| "search re prev (x # xs) \<longleftrightarrow>
     match_here re (items re) prev (x # xs) \<or> search re (Some x) xs"

text \<open>\<^verbatim>\<open>re.test(s)\<close> for a pattern without the flags \<^verbatim>\<open>g\<close> and \<^verbatim>\<open>y\<close>.\<close>

definition RegExp_test :: "RegExp \<Rightarrow> string \<Rightarrow> bool" where
  "RegExp_test re s = search re None s"

section \<open>The editor and the installed extensions\<close>

text \<open>
  What the program reads from the editor and from the file system is collected in a record:
  the settings, the installed extensions, the clock, and the library functions
  \<^verbatim>\<open>path.extname\<close>, \<^verbatim>\<open>path.join\<close>, \<^verbatim>\<open>require\<close>, \<^verbatim>\<open>fs.readFileSync\<close> and \<^verbatim>\<open>JSON.parse\<close>. The first-line
  patterns of the language packs are written in the full pattern syntax, so for them the
  pattern engine is taken as it is: \<open>regexp_compiles\<close> says whether \<^verbatim>\<open>new RegExp(source)\<close>
  returns, \<open>regexp_test\<close> is \<^verbatim>\<open>test\<close> of the pattern with that source.
\<close>

record settings =
  cfg_license :: "string option"
  cfg_useLineComment :: "bool option"
  cfg_holder :: "string option"
  cfg_year :: "string option"

text \<open>An element of \<^verbatim>\<open>packageJSON.contributes.languages\<close>.\<close>

record language_contribution =
  contrib_id :: string
  contrib_extensions :: "string list option"
  contrib_firstLine :: "string option"
  contrib_configuration :: "string option"

text \<open>
  An installed extension; \<open>contributes_languages\<close> is \<^term>\<open>None\<close> when
  \<^verbatim>\<open>packageJSON.contributes\<close> or its \<^verbatim>\<open>languages\<close> is missing.
\<close>

record vscode_extension =
  extensionPath :: string
  contributes_languages :: "language_contribution list option"

record host =
  configView :: settings
  extensions_all :: "vscode_extension list"
  getFullYear :: nat
  extname :: "string \<Rightarrow> string"
  path_join :: "string \<Rightarrow> string \<Rightarrow> string"
  require :: "string \<Rightarrow> error + LanguageConfiguration"
  readFileSync :: "string \<Rightarrow> error + string"
  JSON_parse :: "string \<Rightarrow> error + LanguageConfiguration"
  regexp_compiles :: "string \<Rightarrow> bool"
  regexp_test :: "string \<Rightarrow> string \<Rightarrow> bool"

text \<open>
  The document of the active editor: its language, its file name and its text, the lines
  separated by line feeds. \<open>getText_lines d n\<close> is \<^verbatim>\<open>d.getText(new Range(0, 0, n, 0))\<close>: the
  first \<open>n\<close> lines with their line breaks, or the whole text when the document has no line
  \<open>n\<close>.
\<close>

record TextDocument =
  languageId :: string
  fileName :: string
  content :: string

definition lineCount :: "TextDocument \<Rightarrow> nat" where
  "lineCount d = length (split_nl (content d))"

definition getText_lines :: "TextDocument \<Rightarrow> nat \<Rightarrow> string" where
  "getText_lines d n =
     (if n < lineCount d then concat (map (\<lambda>l. l @ NL) (take n (split_nl (content d))))
      else content d)"

text \<open>
  The edit \<^verbatim>\<open>b.insert(new Position(line, 0), text)\<close> as the editor applies it: at the start
  of the line, or at the end of the document when it has no such line.
\<close>

definition insert_at :: "TextDocument \<Rightarrow> nat \<Rightarrow> string \<Rightarrow> TextDocument" where
  "insert_at d line text =
     (if line < lineCount d
      then d\<lparr>content := concat (map (\<lambda>l. l @ NL) (take line (split_nl (content d)))) @ text @
                          join_nl (drop line (split_nl (content d)))\<rparr>
      else d\<lparr>content := content d @ text\<rparr>)"

text \<open>\<^verbatim>\<open>s.toLowerCase()\<close> on code units below 256.\<close>

definition toLowerCase_unit :: "char \<Rightarrow> char" where
  "toLowerCase_unit c =
     (let n = (of_char c :: nat) in
      if (65 \<le> n \<and> n \<le> 90) \<or> (192 \<le> n \<and> n \<le> 222 \<and> n \<noteq> 215)
      then char_of (n + 32) else c)"

definition toLowerCase :: "string \<Rightarrow> string" where
  "toLowerCase s = map toLowerCase_unit s"

section \<open>The program\<close>

record LanguageConfig =
  lang_id :: string
  firstLine :: "string option"
  vsconfig :: LanguageConfiguration

record ExtensionConfiguration =
  license :: string
  useLineComment :: bool
  data :: CopyrightData

type_synonym cache = "string \<rightharpoonup> LanguageConfig"

definition bind_err :: "error + 'a \<Rightarrow> ('a \<Rightarrow> error + 'b) \<Rightarrow> error + 'b" where
  "bind_err m f = (case m of Inl e \<Rightarrow> Inl e | Inr v \<Rightarrow> f v)"

definition getExtensionConfig :: "host \<Rightarrow> ExtensionConfiguration" where
  "getExtensionConfig h =
     \<lparr>license = (if truthy (cfg_license (configView h)) then the (cfg_license (configView h))
                 else ''apache''),
      useLineComment = (case cfg_useLineComment (configView h) of Some b \<Rightarrow> b | None \<Rightarrow> False),
      data = new_CopyrightData (getFullYear h)
               (String_of (cfg_holder (configView h)))
               (if truthy (cfg_year (configView h)) then cfg_year (configView h)
                else Some (string_of_nat (getFullYear h)))\<rparr>"

text \<open>
  The loop of \<^verbatim>\<open>loadLanguageConfiguration\<close>, from the last line down to the first:
  \<open>strip_comment_lines i lines\<close> has the lines below \<open>i\<close> still to visit.
\<close>

fun strip_comment_lines :: "nat \<Rightarrow> string list \<Rightarrow> string list" where
  "strip_comment_lines 0 lines = lines"
| "strip_comment_lines (Suc i) lines =
     strip_comment_lines i
       (if startsWith (trimStart (lines ! i)) ''//'' then lines[i := CR] else lines)"

definition loadLanguageConfiguration :: "host \<Rightarrow> string \<Rightarrow> error + LanguageConfiguration" where
  "loadLanguageConfiguration h uri =
     (case require h uri of
        Inr v \<Rightarrow> Inr v
      | Inl e \<Rightarrow>
          if e \<noteq> SyntaxError then Inl e
          else bind_err (readFileSync h uri) (\<lambda>text.
            let lines = split_nl text;
                lines = strip_comment_lines (length lines) lines
            in JSON_parse h (join_nl lines)))"

text \<open>
  The predicate of \<^verbatim>\<open>languages.find\<close>, in the order of the array. Reading \<^verbatim>\<open>indexOf\<close> of a
  missing \<^verbatim>\<open>extensions\<close> throws.
\<close>

fun find_language ::
  "string \<Rightarrow> string \<Rightarrow> language_contribution list \<Rightarrow> error + language_contribution option"
where
  "find_language id' fileExt [] = Inr None"
| "find_language id' fileExt (it # its) =
     (if contrib_id it = id' then
        (if fileExt = [] then Inr (Some it)
         else case contrib_extensions it of
                None \<Rightarrow> Inl TypeError
              | Some exts \<Rightarrow>
                  if fileExt \<in> set exts then Inr (Some it) else find_language id' fileExt its)
      else find_language id' fileExt its)"

definition make_config ::
  "host \<Rightarrow> string \<Rightarrow> vscode_extension \<Rightarrow> language_contribution \<Rightarrow> error + LanguageConfig"
where
  "make_config h id' extension data' =
     bind_err (if truthy (contrib_firstLine data')
               then (if regexp_compiles h (the (contrib_firstLine data'))
                     then Inr (contrib_firstLine data') else Inl SyntaxError)
               else Inr None) (\<lambda>fl.
     bind_err (case contrib_configuration data' of
                 None \<Rightarrow> Inl TypeError
               | Some p \<Rightarrow> loadLanguageConfiguration h (path_join h (extensionPath extension) p)) (\<lambda>v.
     Inr \<lparr>lang_id = id', firstLine = fl, vsconfig = v\<rparr>))"

fun scan_extensions ::
  "host \<Rightarrow> string \<Rightarrow> string \<Rightarrow> cache \<Rightarrow> vscode_extension list \<Rightarrow>
   error + (LanguageConfig option \<times> cache)"
where
  "scan_extensions h id' fileExt cached [] = Inr (None, cached)"
| "scan_extensions h id' fileExt cached (extension # rest) =
     (case contributes_languages extension of
        None \<Rightarrow> scan_extensions h id' fileExt cached rest
      | Some languages \<Rightarrow>
          (case find_language id' fileExt languages of
             Inl e \<Rightarrow> Inl e
           | Inr None \<Rightarrow> scan_extensions h id' fileExt cached rest
           | Inr (Some data') \<Rightarrow>
               bind_err (make_config h id' extension data') (\<lambda>config.
                 Inr (Some config, cached(id' @ ''+'' @ fileExt \<mapsto> config)))))"

definition getLanguageConfigById ::
  "host \<Rightarrow> cache \<Rightarrow> string \<Rightarrow> string \<Rightarrow> error + (LanguageConfig option \<times> cache)"
where
  "getLanguageConfigById h cachedLanguageConfigs id' fileName' =
     (let fileExt = toLowerCase (extname h fileName') in
      case cachedLanguageConfigs (id' @ ''+'' @ fileExt) of
        Some config \<Rightarrow> Inr (Some config, cachedLanguageConfigs)
      | None \<Rightarrow> scan_extensions h id' fileExt cachedLanguageConfigs (extensions_all h))"

definition escapeStringForRegexp :: "string \<Rightarrow> string" where
  "escapeStringForRegexp s =
     concat (map (\<lambda>c. if c \<in> set ''-/^$*+?.()|[]{}'' \<or> c = CHR 0x5C then [CHR 0x5C, c] else [c]) s)"

definition hasCopyright :: "TextDocument \<Rightarrow> CommentRule option \<Rightarrow> error + bool" where
  "hasCopyright doc c' =
     (let prefix = getText_lines doc 10 in
      case c' of
        None \<Rightarrow> Inl TypeError
      | Some c \<Rightarrow>
          bind_err (case blockComment c of
                      None \<Rightarrow> Inr False
                    | Some (b0, b1) \<Rightarrow>
                        bind_err (RegExp_new (''^'' @ escapeStringForRegexp b0 @ ''.*Copyright'') ''mis'')
                          (\<lambda>re. Inr (RegExp_test re prefix))) (\<lambda>found.
          if found then Inr True
          else if truthy (lineComment c) then
            bind_err (RegExp_new (''^'' @ escapeStringForRegexp (the (lineComment c)) @ ''.*Copyright'') ''mi'')
              (\<lambda>re. Inr (RegExp_test re prefix))
          else Inr False))"

definition calculateInsertLineIndex :: "host \<Rightarrow> TextDocument \<Rightarrow> LanguageConfig \<Rightarrow> nat" where
  "calculateInsertLineIndex h doc language =
     (let line = 0;
          first = getText_lines doc 1;
          line = (case firstLine language of
                    Some re \<Rightarrow> if regexp_test h re first then 1 else line
                  | None \<Rightarrow> line);
          line = (if lang_id language = ''html'' \<and> startsWith first ''<!doctype'' then 1 else line);
          line = (if lang_id language = ''shellscript'' \<and> startsWith first ''#!/'' then 1 else line)
      in line)"

text \<open>
  How an invocation ends: one of the five early returns, or the edit it asks the editor for,
  \<open>Inserted line text\<close> for \<^verbatim>\<open>b.insert(new Position(line, 0), text)\<close>. An exception leaves
  the invocation with \<^term>\<open>Inl\<close>. The cache is returned as the invocation leaves it.
\<close>

datatype outcome =
    UnsupportedLicense
  | NoActiveEditor
  | NoLanguageConfiguration
  | AlreadyHasCopyright
  | InvalidComments
  | Inserted nat string

definition insertHeader ::
  "host \<Rightarrow> cache \<Rightarrow> TextDocument option \<Rightarrow> (error + outcome) \<times> cache"
where
  "insertHeader h cached editor =
     (let extensionConfig = getExtensionConfig h in
      case CopyrightMap (license extensionConfig) of
        None \<Rightarrow> (Inr UnsupportedLicense, cached)
      | Some licenseTemplate \<Rightarrow>
      (case editor of
        None \<Rightarrow> (Inr NoActiveEditor, cached)
      | Some doc \<Rightarrow>
      (case getLanguageConfigById h cached (languageId doc) (fileName doc) of
        Inl e \<Rightarrow> (Inl e, cached)
      | Inr (None, cached') \<Rightarrow> (Inr NoLanguageConfiguration, cached')
      | Inr (Some language, cached') \<Rightarrow>
      (case hasCopyright doc (comments (vsconfig language)) of
        Inl e \<Rightarrow> (Inl e, cached')
      | Inr True \<Rightarrow> (Inr AlreadyHasCopyright, cached')
      | Inr False \<Rightarrow>
          let startLine = calculateInsertLineIndex h doc language in
          (case formatHeader licenseTemplate (data extensionConfig) (vsconfig language)
                  (useLineComment extensionConfig) of
             Inl e \<Rightarrow> (Inl e, cached')
           | Inr header \<Rightarrow>
               if header = [] then (Inr InvalidComments, cached')
               else (Inr (Inserted startLine
                            (if startLine = lineCount doc then NL @ header else header)),
                     cached'))))))"

text \<open>
  One run of the command on the editor's state: the cache and the active document. The
  document changes only when the invocation asked for an edit.
\<close>

definition run :: "host \<Rightarrow> cache \<times> TextDocument option \<Rightarrow> cache \<times> TextDocument option" where
  "run h st =
     (case st of (cached, editor) \<Rightarrow>
        (case insertHeader h cached editor of
           (Inr (Inserted line text), cached') \<Rightarrow> (cached', map_option (\<lambda>d. insert_at d line text) editor)
         | (r, cached') \<Rightarrow> (cached', editor)))"

section \<open>The resolution rule in the words of the specification\<close>

text \<open>
  The installed language definitions in the order of the host, each with the extension that
  contributes it, and the rule C2 states: the first definition whose id is the language id
  and whose extension list is missing, empty, or has the extension of the file.
\<close>

definition installed_languages :: "host \<Rightarrow> (vscode_extension \<times> language_contribution) list" where
  "installed_languages h =
     concat (map (\<lambda>x. case contributes_languages x of None \<Rightarrow> [] | Some ls \<Rightarrow> map (Pair x) ls)
               (extensions_all h))"

definition spec_resolve :: "host \<Rightarrow> string \<Rightarrow> string \<Rightarrow> language_contribution option" where
  "spec_resolve h id' fileExt =
     map_option snd
       (find (\<lambda>p. contrib_id (snd p) = id' \<and>
                   (case contrib_extensions (snd p) of
                      None \<Rightarrow> True
                    | Some exts \<Rightarrow> exts = [] \<or> fileExt \<in> set exts))
          (installed_languages h))"

section \<open>The detection rule in the words of the specification\<close>

text \<open>
  What C5 states of a text and a comment token: at the start of some line the text has the
  token, and later the word \<^verbatim>\<open>Copyright\<close>, both up to the case of the letters; for a line
  comment no line break lies between the two.
\<close>

definition eq_ignoring_case :: "string \<Rightarrow> string \<Rightarrow> bool" where
  "eq_ignoring_case a b \<longleftrightarrow> map toUpperCase_unit a = map toUpperCase_unit b"

definition at_line_start :: "string \<Rightarrow> bool" where
  "at_line_start before \<longleftrightarrow> before = [] \<or> isLineTerminator (last before)"

definition comment_then_copyright :: "bool \<Rightarrow> string \<Rightarrow> string \<Rightarrow> bool" where
  "comment_then_copyright across_lines tok text \<longleftrightarrow>
     (\<exists>before t between w rest.
        text = before @ t @ between @ w @ rest \<and> at_line_start before \<and>
        eq_ignoring_case t tok \<and>
        (across_lines \<or> (\<forall>c \<in> set between. \<not> isLineTerminator c)) \<and>
        eq_ignoring_case w ''Copyright'')"

section \<open>Example inputs\<close>

text \<open>A language with both comment kinds, one with a block comment only, one with neither.\<close>

definition both_comments :: LanguageConfiguration where
  "both_comments =
     \<lparr>comments = Some \<lparr>lineComment = Some ''//'', blockComment = Some (''/*'', ''*/'')\<rparr>\<rparr>"

definition block_only :: LanguageConfiguration where
  "block_only = \<lparr>comments = Some \<lparr>lineComment = None, blockComment = Some (''/*'', ''*/'')\<rparr>\<rparr>"

definition no_comments :: LanguageConfiguration where
  "no_comments = \<lparr>comments = Some \<lparr>lineComment = None, blockComment = None\<rparr>\<rparr>"

definition google_2019 :: CopyrightData where
  "google_2019 = \<lparr>holder = ''Google LLC'', year = ''2019''\<rparr>"

text \<open>
  An editor with two language packs. Its \<open>extname\<close> is the text from the last dot on, which
  is \<^verbatim>\<open>path.extname\<close> on the file names used here; its pattern engine knows the one
  first-line pattern that is installed.
\<close>

definition example_extname :: "string \<Rightarrow> string" where
  "example_extname f =
     (if CHR ''.'' \<in> set f then CHR ''.'' # rev (takeWhile (\<lambda>c. c \<noteq> CHR ''.'') (rev f)) else [])"

definition cpp_extension :: vscode_extension where
  "cpp_extension =
     \<lparr>extensionPath = ''/ext/cpp'',
      contributes_languages = Some
        [\<lparr>contrib_id = ''cpp'', contrib_extensions = Some [''.cpp'', ''.h''],
          contrib_firstLine = None, contrib_configuration = Some ''cpp.json''\<rparr>]\<rparr>"

definition shell_extension :: vscode_extension where
  "shell_extension =
     \<lparr>extensionPath = ''/ext/shellscript'',
      contributes_languages = Some
        [\<lparr>contrib_id = ''shellscript'', contrib_extensions = Some [''.sh''],
          contrib_firstLine = Some ''^#!.*bash'', contrib_configuration = Some ''sh.json''\<rparr>]\<rparr>"

text \<open>
  The Makefile pack keeps its comment rules in a file that starts with a comment line, so
  \<^verbatim>\<open>require\<close> fails on it with a syntax error; the file of the INI pack cannot be read.
\<close>

definition make_extension :: vscode_extension where
  "make_extension =
     \<lparr>extensionPath = ''/ext/make'',
      contributes_languages = Some
        [\<lparr>contrib_id = ''makefile'', contrib_extensions = Some [''.mk'', ''.mak''],
          contrib_firstLine = None, contrib_configuration = Some ''make.json''\<rparr>]\<rparr>"

definition ini_extension :: vscode_extension where
  "ini_extension =
     \<lparr>extensionPath = ''/ext/ini'',
      contributes_languages = Some
        [\<lparr>contrib_id = ''ini'', contrib_extensions = Some [''.ini''],
          contrib_firstLine = None, contrib_configuration = Some ''ini.json''\<rparr>]\<rparr>"

definition make_json :: string where
  "make_json =
     ''{ '' @ [CHR 0x22] @ ''comments'' @ [CHR 0x22] @ '': { '' @ [CHR 0x22] @ ''lineComment'' @
     [CHR 0x22] @ '': '' @ [CHR 0x22] @ ''#'' @ [CHR 0x22] @ '' } }''"

definition hash_comments :: LanguageConfiguration where
  "hash_comments = \<lparr>comments = Some \<lparr>lineComment = Some ''#'', blockComment = None\<rparr>\<rparr>"

definition example_host :: host where
  "example_host =
     \<lparr>configView = \<lparr>cfg_license = Some ''bsd'', cfg_useLineComment = None,
                     cfg_holder = Some ''Google LLC'', cfg_year = Some ''2019''\<rparr>,
      extensions_all = [cpp_extension, shell_extension, make_extension, ini_extension],
      getFullYear = 2019,
      extname = example_extname,
      path_join = (\<lambda>a b. a @ ''/'' @ b),
      require = (\<lambda>uri. if uri = ''/ext/cpp/cpp.json'' then Inr both_comments
                         else if uri = ''/ext/shellscript/sh.json'' then Inr hash_comments
                         else if uri = ''/ext/make/make.json'' then Inl SyntaxError
                         else Inl OtherError),
      readFileSync = (\<lambda>uri. if uri = ''/ext/make/make.json''
                              then Inr (''  // symbols used as comments'' @ NL @ make_json)
                              else Inl OtherError),
      JSON_parse = (\<lambda>text. if text = CR @ NL @ make_json then Inr hash_comments
                            else Inl SyntaxError),
      regexp_compiles = (\<lambda>source. True),
      regexp_test = (\<lambda>source s. source = ''^#!.*bash'' \<and> startsWith s ''#!/bin/bash'')\<rparr>"

definition one_line_cpp :: TextDocument where
  "one_line_cpp = \<lparr>languageId = ''cpp'', fileName = ''main.cpp'', content = ''int x;''\<rparr>"

definition one_line_sh :: TextDocument where
  "one_line_sh = \<lparr>languageId = ''shellscript'', fileName = ''run.sh'', content = ''#!/bin/sh''\<rparr>"

definition makefile_doc :: TextDocument where
  "makefile_doc = \<lparr>languageId = ''makefile'', fileName = ''Makefile'', content = ''all:''\<rparr>"

definition ini_doc :: TextDocument where
  "ini_doc = \<lparr>languageId = ''ini'', fileName = ''setup.ini'', content = ''[core]''\<rparr>"

definition example_corp_doc :: TextDocument where
  "example_corp_doc =
     \<lparr>languageId = ''cpp'', fileName = ''main.cpp'', content = ''// Copyright 2020 Example Corp''\<rparr>"


text \<open>
  An editor set to line comments, with a language pack that has a block comment only, and
  the BSD text as the formatter emits it with no comment around it.
\<close>

definition css_extension :: vscode_extension where
  "css_extension =
     \<lparr>extensionPath = ''/ext/css'',
      contributes_languages = Some
        [\<lparr>contrib_id = ''css'', contrib_extensions = Some [''.css''],
          contrib_firstLine = None, contrib_configuration = Some ''css.json''\<rparr>]\<rparr>"

definition line_comment_host :: host where
  "line_comment_host =
     example_host
       \<lparr>configView := (configView example_host)\<lparr>cfg_useLineComment := Some True\<rparr>,
        extensions_all := [css_extension],
        require := (\<lambda>uri. if uri = ''/ext/css/css.json'' then Inr block_only
                           else Inl OtherError)\<rparr>"

definition css_doc :: TextDocument where
  "css_doc = \<lparr>languageId = ''css'', fileName = ''site.css'', content = ''body { }''\<rparr>"

definition bare_bsd_header :: string where
  "bare_bsd_header =
     ''Copyright (c) 2019 Google LLC All rights reserved.'' @ NL @
     ''Use of this source code is governed by a BSD-style'' @ NL @
     ''license that can be found in the LICENSE file.'' @ NL @ NL"

definition cpp_config :: LanguageConfig where
  "cpp_config = \<lparr>lang_id = ''cpp'', firstLine = None, vsconfig = both_comments\<rparr>"

section \<open>Lines and trimming\<close>

lemma split_nl_not_Nil: "split_nl s \<noteq> []"
  by (induction s) (auto split: list.splits)

lemma split_nl_no_NL: "l \<in> set (split_nl s) \<Longrightarrow> CHR 0x0A \<notin> set l"
proof (induction s arbitrary: l)
  case Nil
  then show ?case by simp
next
  case (Cons c cs)
  obtain x xs where "split_nl cs = x # xs"
    using split_nl_not_Nil by (cases "split_nl cs") auto
  with Cons show ?case by (auto split: if_splits)
qed

lemma split_nl_line: "CHR 0x0A \<notin> set a \<Longrightarrow> split_nl (a @ CHR 0x0A # b) = a # split_nl b"
  by (induction a) (auto split: list.splits)

lemma split_nl_last: "CHR 0x0A \<notin> set a \<Longrightarrow> split_nl a = [a]"
  by (induction a) auto

lemma join_split_nl: "join_nl (split_nl s) = s"
proof (induction s)
  case Nil
  then show ?case by simp
next
  case (Cons c cs)
  obtain x xs where "split_nl cs = x # xs"
    using split_nl_not_Nil by (cases "split_nl cs") auto
  with Cons show ?case by (cases xs) auto
qed

lemma split_nl_concat_lines:
  "(\<And>l. l \<in> set ls \<Longrightarrow> CHR 0x0A \<notin> set l) \<Longrightarrow>
   split_nl (concat (map (\<lambda>l. l @ NL) ls) @ rest) = ls @ split_nl rest"
  by (induction ls) (auto simp: split_nl_line)

lemma set_trimRight: "set (trimRight s) \<subseteq> set s"
  unfolding trimRight_def using set_dropWhileD[of _ isWhiteSpace "rev s"] by auto

lemma trimRight_keep:
  "\<not> isWhiteSpace c \<Longrightarrow> trimRight (a @ c # b) = a @ c # trimRight b"
  by (simp add: trimRight_def dropWhile_append)

lemma trimRight_nonspace:
  assumes "ch \<in> set line" "\<not> isWhiteSpace ch"
  shows "startsWith (trimRight (p @ line)) p"
proof -
  obtain a b where "line = a @ ch # b"
    using assms(1) by (meson split_list)
  then have "trimRight (p @ line) = p @ (a @ ch # trimRight b)"
    using trimRight_keep[OF assms(2), of "p @ a" b] by simp
  then show ?thesis by (simp add: startsWith_def)
qed

lemma endsWith_append: "endsWith (a @ p) p"
  by (simp add: endsWith_def)

section \<open>The formatter\<close>

lemma foldl_append_concat: "foldl (\<lambda>r l. r @ f l) acc xs = acc @ concat (map f xs)"
  by (induction xs arbitrary: acc) auto

lemma formatString_eq:
  "formatString header first_line prefix last_line =
     (if first_line \<noteq> [] then first_line @ NL else []) @
     concat (map (\<lambda>line. trimRight (prefix @ line) @ NL) (split_nl header)) @
     (if last_line \<noteq> [] then last_line @ NL else []) @ NL"
  by (simp add: formatString_def Let_def foldl_append_concat)

lemma body_ends_NL: "xs \<noteq> [] \<Longrightarrow> \<exists>b. concat (map (\<lambda>l. g l @ NL) xs) = b @ NL"
proof (induction xs rule: rev_induct)
  case Nil
  then show ?case by simp
next
  case (snoc x xs)
  show ?case by simp
qed

lemma formatString_ends: "endsWith (formatString h f p l) (NL @ NL)"
proof -
  obtain b where b: "concat (map (\<lambda>line. trimRight (p @ line) @ NL) (split_nl h)) = b @ NL"
    using body_ends_NL[OF split_nl_not_Nil, where g = "\<lambda>line. trimRight (p @ line)"] by blast
  show ?thesis
  proof (cases "l = []")
    case True
    have "formatString h f p l = ((if f \<noteq> [] then f @ NL else []) @ b) @ (NL @ NL)"
      by (simp add: formatString_eq b True)
    then show ?thesis using endsWith_append by metis
  next
    case False
    have "formatString h f p l = ((if f \<noteq> [] then f @ NL else []) @ b @ NL @ l) @ (NL @ NL)"
      by (simp add: formatString_eq b False)
    then show ?thesis using endsWith_append by metis
  qed
qed

lemma formatString_not_Nil: "formatString h f p l \<noteq> []"
  by (simp add: formatString_eq)

lemma formatHeader_Some:
  "comments language = Some c \<Longrightarrow>
   formatHeader template d language u =
     Inr (if \<not> u \<and> blockComment c \<noteq> None then
            (if fst (the (blockComment c)) = ''/*''
             then formatString (template (holder d) (year d)) (fst (the (blockComment c)) @ ''*'')
                    '' * '' ('' '' @ snd (the (blockComment c)))
             else formatString (template (holder d) (year d)) (fst (the (blockComment c))) []
                    (snd (the (blockComment c))))
          else if truthy (lineComment c)
          then formatString (template (holder d) (year d)) [] (the (lineComment c) @ '' '') []
          else formatString (template (holder d) (year d)) [] [] [])"
  by (simp add: formatHeader_def Let_def split: prod.splits)

lemma formatHeader_shape:
  assumes "formatHeader template d language u = Inr header"
  shows "\<exists>f p l. header = formatString (template (holder d) (year d)) f p l"
proof (cases "comments language")
  case None
  with assms show ?thesis by (simp add: formatHeader_def)
next
  case (Some c)
  from assms show ?thesis
    unfolding formatHeader_Some[OF Some] by (auto split: if_splits)
qed

lemma formatHeader_not_Nil: "formatHeader template d language u \<noteq> Inr []"
  using formatHeader_shape formatString_not_Nil by metis

lemma insertHeader_not_InvalidComments:
  "fst (insertHeader h cached editor) \<noteq> Inr InvalidComments"
  unfolding insertHeader_def Let_def
  by (simp add: formatHeader_not_Nil split: option.split sum.split prod.split bool.split)

lemma banner_lines:
  "split_nl (formatString body ''/**'' '' * '' '' */'') =
     ''/**'' # map (\<lambda>line. trimRight ('' * '' @ line)) (split_nl body) @ ['' */'', [], []]"
proof -
  let ?ls = "map (\<lambda>line. trimRight ('' * '' @ line)) (split_nl body)"
  have nl: "CHR 0x0A \<notin> set l" if "l \<in> set ?ls" for l
  proof -
    from that obtain line
      where line: "line \<in> set (split_nl body)" and l: "l = trimRight ('' * '' @ line)"
      by auto
    have "CHR 0x0A \<notin> set ('' * '' @ line)"
      using split_nl_no_NL[OF line] by simp
    then show ?thesis
      using set_trimRight[of "'' * '' @ line"] l by blast
  qed
  have e1: "formatString body ''/**'' '' * '' '' */'' =
          ''/**'' @ CHR 0x0A # (concat (map (\<lambda>l. l @ NL) ?ls) @ ('' */'' @ NL @ NL))"
    by (simp add: formatString_eq comp_def)
  have e2: "split_nl (''/**'' @ CHR 0x0A # (concat (map (\<lambda>l. l @ NL) ?ls) @ ('' */'' @ NL @ NL)))
       = ''/**'' # split_nl (concat (map (\<lambda>l. l @ NL) ?ls) @ ('' */'' @ NL @ NL))"
    by (rule split_nl_line) simp
  have e3: "split_nl (concat (map (\<lambda>l. l @ NL) ?ls) @ ('' */'' @ NL @ NL)) =
              ?ls @ split_nl ('' */'' @ NL @ NL)"
    by (rule split_nl_concat_lines) (rule nl)
  have e4: "split_nl ('' */'' @ NL @ NL) = ['' */'', [], []]"
    by simp
  show ?thesis unfolding e1 e2 e3 e4 by (rule refl)
qed

lemma banner_line_prefix: "startsWith (trimRight ('' * '' @ line)) '' *''"
proof -
  have "trimRight ('' '' @ CHR ''*'' # ('' '' @ line)) = '' '' @ CHR ''*'' # trimRight ('' '' @ line)"
    by (rule trimRight_keep) (simp add: isWhiteSpace_def)
  then show ?thesis by (simp add: startsWith_def)
qed

section \<open>The claims\<close>

text \<open>
  C3, as the program has it. With the block comment pair \<^verbatim>\<open>/*\<close>, \<^verbatim>\<open>*/\<close> and no forced line
  comments, the lines of the formatted header are \<^verbatim>\<open>/**\<close>, then for each line of the
  license body the text \<^verbatim>\<open> * \<close> followed by the line with the white space at the end of the
  result removed, then \<^verbatim>\<open> */\<close> and one empty line. Each body line begins with \<^verbatim>\<open> *\<close>; it
  begins with \<^verbatim>\<open> * \<close> when the body line has a character other than white space.
\<close>

theorem formatHeader_banner_lines:
  assumes "comments language = Some c" and "blockComment c = Some (''/*'', ''*/'')"
  shows "\<exists>header. formatHeader template d language False = Inr header \<and>
           split_nl header =
             ''/**'' #
             map (\<lambda>line. trimRight ('' * '' @ line)) (split_nl (template (holder d) (year d))) @
             ['' */'', [], []] \<and>
           (\<forall>line \<in> set (split_nl (template (holder d) (year d))).
              startsWith (trimRight ('' * '' @ line)) '' *'' \<and>
              ((\<exists>ch \<in> set line. \<not> isWhiteSpace ch) \<longrightarrow>
                 startsWith (trimRight ('' * '' @ line)) '' * ''))"
proof -
  let ?body = "template (holder d) (year d)"
  have fh: "formatHeader template d language False =
              Inr (formatString ?body ''/**'' '' * '' '' */'')"
    by (simp add: formatHeader_Some[OF assms(1)] assms(2))
  have each: "\<forall>line \<in> set (split_nl ?body).
              startsWith (trimRight ('' * '' @ line)) '' *'' \<and>
              ((\<exists>ch \<in> set line. \<not> isWhiteSpace ch) \<longrightarrow>
                 startsWith (trimRight ('' * '' @ line)) '' * '')"
    using banner_line_prefix trimRight_nonspace by blast
  show ?thesis
    using each by (intro exI[of _ "formatString ?body ''/**'' '' * '' '' */''"]) (simp only: fh banner_lines simp_thms)
qed

theorem formatHeader_banner_lines_witness:
  "comments both_comments = Some \<lparr>lineComment = Some ''//'', blockComment = Some (''/*'', ''*/'')\<rparr> \<and>
   formatHeader bsd google_2019 both_comments False =
     Inr (''/**'' @ NL @
          '' * Copyright (c) 2019 Google LLC All rights reserved.'' @ NL @
          '' * Use of this source code is governed by a BSD-style'' @ NL @
          '' * license that can be found in the LICENSE file.'' @ NL @
          '' */'' @ NL @ NL)"
proof -
  have c: "comments both_comments =
             Some \<lparr>lineComment = Some ''//'', blockComment = Some (''/*'', ''*/'')\<rparr>"
    by (simp add: both_comments_def)
  obtain header where h: "formatHeader bsd google_2019 both_comments False = Inr header"
    and l: "split_nl header =
             ''/**'' #
             map (\<lambda>line. trimRight ('' * '' @ line)) (split_nl (bsd (holder google_2019) (year google_2019))) @
             ['' */'', [], []]"
    using formatHeader_banner_lines[OF c, of bsd google_2019] by auto
  have "join_nl (split_nl header) =
          ''/**'' @ NL @
          '' * Copyright (c) 2019 Google LLC All rights reserved.'' @ NL @
          '' * Use of this source code is governed by a BSD-style'' @ NL @
          '' * license that can be found in the LICENSE file.'' @ NL @
          '' */'' @ NL @ NL"
    unfolding l by code_simp
  then show ?thesis using c h by (simp add: join_split_nl)
qed

text \<open>
  C3 as stated fails on the Apache template, whose second line is empty: the line emitted for
  it is \<^verbatim>\<open> *\<close>, which does not begin with \<^verbatim>\<open> * \<close>.
\<close>

theorem formatHeader_banner_blank_line:
  "split_nl (projr (formatHeader apache google_2019 both_comments False)) ! 2 = '' *'' \<and>
   \<not> startsWith (split_nl (projr (formatHeader apache google_2019 both_comments False)) ! 2) '' * ''"
  by code_simp

text \<open>
  C10. Where \<^verbatim>\<open>language.comments\<close> is defined, \<open>formatHeader\<close> returns a string that is not
  empty and ends with two line feeds, also when neither comment kind is given, where the
  body is emitted with no wrapping. So the invocation never ends in the branch that reports
  invalid comments.
\<close>

theorem formatHeader_never_empty:
  assumes "comments language = Some c"
  shows "(\<exists>header. formatHeader template d language u = Inr header \<and> header \<noteq> [] \<and>
            endsWith header (NL @ NL) \<and>
            (lineComment c = None \<and> blockComment c = None \<longrightarrow>
               header = concat (map (\<lambda>line. trimRight line @ NL)
                                  (split_nl (template (holder d) (year d)))) @ NL)) \<and>
         fst (insertHeader h cached editor) \<noteq> Inr InvalidComments"
proof -
  obtain header where hd: "formatHeader template d language u = Inr header"
    using formatHeader_Some[OF assms] by blast
  have "header \<noteq> []"
    using hd formatHeader_not_Nil by metis
  moreover have "endsWith header (NL @ NL)"
    using formatHeader_shape[OF hd] formatString_ends by metis
  moreover have "header = concat (map (\<lambda>line. trimRight line @ NL)
                                  (split_nl (template (holder d) (year d)))) @ NL"
    if "lineComment c = None" "blockComment c = None"
    using hd that unfolding formatHeader_Some[OF assms]
    by (simp add: truthy_def formatString_eq)
  ultimately have "\<exists>header. formatHeader template d language u = Inr header \<and> header \<noteq> [] \<and>
            endsWith header (NL @ NL) \<and>
            (lineComment c = None \<and> blockComment c = None \<longrightarrow>
               header = concat (map (\<lambda>line. trimRight line @ NL)
                                  (split_nl (template (holder d) (year d)))) @ NL)"
    using hd by (intro exI[of _ header]) simp
  then show ?thesis
    using insertHeader_not_InvalidComments[of h cached editor] by (rule conjI)
qed

theorem formatHeader_never_empty_witness:
  "comments no_comments = Some \<lparr>lineComment = None, blockComment = None\<rparr> \<and>
   (\<exists>header. formatHeader bsd google_2019 no_comments False = Inr header \<and> header \<noteq> [] \<and>
      endsWith header (NL @ NL) \<and>
      header = concat (map (\<lambda>line. trimRight line @ NL)
                         (split_nl (bsd (holder google_2019) (year google_2019)))) @ NL) \<and>
   fst (insertHeader example_host Map.empty (Some one_line_cpp)) \<noteq> Inr InvalidComments"
proof -
  have c: "comments no_comments = Some \<lparr>lineComment = None, blockComment = None\<rparr>"
    by (simp add: no_comments_def)
  show ?thesis
    using c formatHeader_never_empty[OF c, of bsd google_2019 False example_host Map.empty
        "Some one_line_cpp"]
    by simp
qed

section \<open>Templates, settings and the insertion line\<close>

lemma apache_eq:
  "\<exists>rest. \<forall>hl yr. apache hl yr = ''Copyright '' @ yr @ '' '' @ hl @ [] @ NL @ rest"
  unfolding apache_def by (intro exI allI) (simp only: join_nl.simps append_assoc append_Nil)

lemma mit_eq:
  "\<exists>rest. \<forall>hl yr. mit hl yr = ''Copyright (c) '' @ yr @ '' '' @ hl @ [] @ NL @ rest"
  unfolding mit_def by (intro exI allI) (simp only: join_nl.simps append_assoc append_Nil)

lemma gpl3_eq:
  "\<exists>rest. \<forall>hl yr. gpl3 hl yr = ''Copyright (c) '' @ yr @ '' '' @ hl @ [] @ NL @ rest"
  unfolding gpl3_def by (intro exI allI) (simp only: join_nl.simps append_assoc append_Nil)

lemma bsd_eq:
  "\<exists>rest. \<forall>hl yr. bsd hl yr =
     ''Copyright (c) '' @ yr @ '' '' @ hl @ '' All rights reserved.'' @ NL @ rest"
  unfolding bsd_def by (intro exI allI) (simp only: join_nl.simps append_assoc)

lemma apache_text: "apache hl yr =
      ''Copyright '' @ yr @ '' '' @ hl @ NL @ NL @
      ''Licensed under the Apache License, Version 2.0 (the '' @ [CHR 0x22] @ ''License'' @ [CHR 0x22] @ '');'' @ NL @
      ''you may not use this file except in compliance with the License.'' @ NL @
      ''You may obtain a copy of the License at'' @ NL @ NL @
      ''     https://www.apache.org/licenses/LICENSE-2.0'' @ NL @ NL @
      ''Unless required by applicable law or agreed to in writing, software'' @ NL @
      ''distributed under the License is distributed on an '' @ [CHR 0x22] @ ''AS IS'' @ [CHR 0x22] @ '' BASIS,'' @ NL @
      ''WITHOUT WARRANTIES OR CONDITIONS OF ANY KIND, either express or implied.'' @ NL @
      ''See the License for the specific language governing permissions and'' @ NL @
      ''limitations under the License.''"
  by (simp add: apache_def)

lemma bsd_text: "bsd hl yr =
      ''Copyright (c) '' @ yr @ '' '' @ hl @ '' All rights reserved.'' @ NL @
      ''Use of this source code is governed by a BSD-style'' @ NL @
      ''license that can be found in the LICENSE file.''"
  by (simp add: bsd_def)

lemma mit_text: "mit hl yr =
      ''Copyright (c) '' @ yr @ '' '' @ hl @ NL @ NL @
      ''Permission is hereby granted, free of charge, to any person obtaining a copy of'' @ NL @
      ''this software and associated documentation files (the '' @ [CHR 0x22] @ ''Software'' @ [CHR 0x22] @ ''), to deal in'' @ NL @
      ''the Software without restriction, including without limitation the rights to'' @ NL @
      ''use, copy, modify, merge, publish, distribute, sublicense, and/or sell copies of'' @ NL @
      ''the Software, and to permit persons to whom the Software is furnished to do so,'' @ NL @
      ''subject to the following conditions:'' @ NL @ NL @
      ''The above copyright notice and this permission notice shall be included in all'' @ NL @
      ''copies or substantial portions of the Software.'' @ NL @ NL @
      ''THE SOFTWARE IS PROVIDED '' @ [CHR 0x22] @ ''AS IS'' @ [CHR 0x22] @ '', WITHOUT WARRANTY OF ANY KIND, EXPRESS OR'' @ NL @
      ''IMPLIED, INCLUDING BUT NOT LIMITED TO THE WARRANTIES OF MERCHANTABILITY, FITNESS'' @ NL @
      ''FOR A PARTICULAR PURPOSE AND NONINFRINGEMENT. IN NO EVENT SHALL THE AUTHORS OR'' @ NL @
      ''COPYRIGHT HOLDERS BE LIABLE FOR ANY CLAIM, DAMAGES OR OTHER LIABILITY, WHETHER'' @ NL @
      ''IN AN ACTION OF CONTRACT, TORT OR OTHERWISE, ARISING FROM, OUT OF OR IN'' @ NL @
      ''CONNECTION WITH THE SOFTWARE OR THE USE OR OTHER DEALINGS IN THE SOFTWARE.''"
  by (simp add: mit_def)

lemma gpl3_text: "gpl3 hl yr =
      ''Copyright (c) '' @ yr @ '' '' @ hl @ NL @ NL @
      ''This program is free software: you can redistribute it and/or modify'' @ NL @
      ''it under the terms of the GNU General Public License as published by'' @ NL @
      ''the Free Software Foundation, either version 3 of the License, or'' @ NL @
      ''(at your option) any later version.'' @ NL @ NL @
      ''This program is distributed in the hope that it will be useful,'' @ NL @
      ''but WITHOUT ANY WARRANTY; without even the implied warranty of'' @ NL @
      ''MERCHANTABILITY or FITNESS FOR A PARTICULAR PURPOSE.  See the'' @ NL @
      ''GNU General Public License for more details.'' @ NL @ NL @
      ''You should have received a copy of the GNU General Public License'' @ NL @
      ''along with this program.  If not, see <https://www.gnu.org/licenses/>.''"
  by (simp add: gpl3_def)

lemma CopyrightMap_cases:
  "CopyrightMap k =
     (if k = ''apache'' then Some apache else if k = ''bsd'' then Some bsd
      else if k = ''mit'' then Some mit else if k = ''gpl3'' then Some gpl3 else None)"
  by (simp add: CopyrightMap_def)

lemma insertHeader_unsupported:
  "CopyrightMap (license (getExtensionConfig h)) = None \<Longrightarrow>
   insertHeader h cached editor = (Inr UnsupportedLicense, cached)"
  by (simp add: insertHeader_def Let_def)

lemma calculateInsertLineIndex_le: "calculateInsertLineIndex h doc language \<le> 1"
  by (simp add: calculateInsertLineIndex_def Let_def split: option.split)

lemma lineCount_pos: "1 \<le> lineCount doc"
  using split_nl_not_Nil[of "content doc"]
  by (cases "split_nl (content doc)") (auto simp: lineCount_def)

lemma insertHeader_Inserted:
  assumes "fst (insertHeader h cached (Some doc)) = Inr (Inserted line text)"
  shows "\<exists>template language header cached'.
           CopyrightMap (license (getExtensionConfig h)) = Some template \<and>
           getLanguageConfigById h cached (languageId doc) (fileName doc) =
             Inr (Some language, cached') \<and>
           hasCopyright doc (comments (vsconfig language)) = Inr False \<and>
           formatHeader template (data (getExtensionConfig h)) (vsconfig language)
             (useLineComment (getExtensionConfig h)) = Inr header \<and>
           line = calculateInsertLineIndex h doc language \<and>
           text = (if line = lineCount doc then NL @ header else header) \<and>
           insertHeader h cached (Some doc) = (Inr (Inserted line text), cached')"
  using assms unfolding insertHeader_def Let_def
  by (auto split: option.splits sum.splits prod.splits bool.splits if_splits)

text \<open>
  C6, as the program has it. The four labels are mapped to their templates and every other
  label to nothing, in which case the invocation ends at once and the cache is as before.
  For every holder and year each template returns its license text: the first line is
  \<^verbatim>\<open>Copyright\<close>, year and holder for Apache, \<^verbatim>\<open>Copyright (c)\<close>, year and holder for MIT and GPL3,
  and \<^verbatim>\<open>Copyright (c)\<close>, year, holder and \<^verbatim>\<open> All rights reserved.\<close> for BSD; the text after it is
  the same for every holder and year.
\<close>

theorem CopyrightMap_render:
  "CopyrightMap ''apache'' = Some apache \<and> CopyrightMap ''bsd'' = Some bsd \<and>
   CopyrightMap ''mit'' = Some mit \<and> CopyrightMap ''gpl3'' = Some gpl3 \<and>
   (key \<notin> {''apache'', ''bsd'', ''mit'', ''gpl3''} \<longrightarrow> CopyrightMap key = None) \<and>
   (CopyrightMap (license (getExtensionConfig h)) = None \<longrightarrow>
      insertHeader h cached editor = (Inr UnsupportedLicense, cached)) \<and>
   apache hl yr =
      ''Copyright '' @ yr @ '' '' @ hl @ NL @ NL @
      ''Licensed under the Apache License, Version 2.0 (the '' @ [CHR 0x22] @ ''License'' @ [CHR 0x22] @ '');'' @ NL @
      ''you may not use this file except in compliance with the License.'' @ NL @
      ''You may obtain a copy of the License at'' @ NL @ NL @
      ''     https://www.apache.org/licenses/LICENSE-2.0'' @ NL @ NL @
      ''Unless required by applicable law or agreed to in writing, software'' @ NL @
      ''distributed under the License is distributed on an '' @ [CHR 0x22] @ ''AS IS'' @ [CHR 0x22] @ '' BASIS,'' @ NL @
      ''WITHOUT WARRANTIES OR CONDITIONS OF ANY KIND, either express or implied.'' @ NL @
      ''See the License for the specific language governing permissions and'' @ NL @
      ''limitations under the License.'' \<and>
   bsd hl yr =
      ''Copyright (c) '' @ yr @ '' '' @ hl @ '' All rights reserved.'' @ NL @
      ''Use of this source code is governed by a BSD-style'' @ NL @
      ''license that can be found in the LICENSE file.'' \<and>
   mit hl yr =
      ''Copyright (c) '' @ yr @ '' '' @ hl @ NL @ NL @
      ''Permission is hereby granted, free of charge, to any person obtaining a copy of'' @ NL @
      ''this software and associated documentation files (the '' @ [CHR 0x22] @ ''Software'' @ [CHR 0x22] @ ''), to deal in'' @ NL @
      ''the Software without restriction, including without limitation the rights to'' @ NL @
      ''use, copy, modify, merge, publish, distribute, sublicense, and/or sell copies of'' @ NL @
      ''the Software, and to permit persons to whom the Software is furnished to do so,'' @ NL @
      ''subject to the following conditions:'' @ NL @ NL @
      ''The above copyright notice and this permission notice shall be included in all'' @ NL @
      ''copies or substantial portions of the Software.'' @ NL @ NL @
      ''THE SOFTWARE IS PROVIDED '' @ [CHR 0x22] @ ''AS IS'' @ [CHR 0x22] @ '', WITHOUT WARRANTY OF ANY KIND, EXPRESS OR'' @ NL @
      ''IMPLIED, INCLUDING BUT NOT LIMITED TO THE WARRANTIES OF MERCHANTABILITY, FITNESS'' @ NL @
      ''FOR A PARTICULAR PURPOSE AND NONINFRINGEMENT. IN NO EVENT SHALL THE AUTHORS OR'' @ NL @
      ''COPYRIGHT HOLDERS BE LIABLE FOR ANY CLAIM, DAMAGES OR OTHER LIABILITY, WHETHER'' @ NL @
      ''IN AN ACTION OF CONTRACT, TORT OR OTHERWISE, ARISING FROM, OUT OF OR IN'' @ NL @
      ''CONNECTION WITH THE SOFTWARE OR THE USE OR OTHER DEALINGS IN THE SOFTWARE.'' \<and>
   gpl3 hl yr =
      ''Copyright (c) '' @ yr @ '' '' @ hl @ NL @ NL @
      ''This program is free software: you can redistribute it and/or modify'' @ NL @
      ''it under the terms of the GNU General Public License as published by'' @ NL @
      ''the Free Software Foundation, either version 3 of the License, or'' @ NL @
      ''(at your option) any later version.'' @ NL @ NL @
      ''This program is distributed in the hope that it will be useful,'' @ NL @
      ''but WITHOUT ANY WARRANTY; without even the implied warranty of'' @ NL @
      ''MERCHANTABILITY or FITNESS FOR A PARTICULAR PURPOSE.  See the'' @ NL @
      ''GNU General Public License for more details.'' @ NL @ NL @
      ''You should have received a copy of the GNU General Public License'' @ NL @
      ''along with this program.  If not, see <https://www.gnu.org/licenses/>.''"
proof -
  have "CopyrightMap ''apache'' = Some apache" "CopyrightMap ''bsd'' = Some bsd"
    "CopyrightMap ''mit'' = Some mit" "CopyrightMap ''gpl3'' = Some gpl3"
    by (simp_all add: CopyrightMap_cases)
  moreover have "key \<notin> {''apache'', ''bsd'', ''mit'', ''gpl3''} \<longrightarrow> CopyrightMap key = None"
    by (simp add: CopyrightMap_cases)
  moreover have "CopyrightMap (license (getExtensionConfig h)) = None \<longrightarrow>
      insertHeader h cached editor = (Inr UnsupportedLicense, cached)"
    using insertHeader_unsupported[of h cached editor] by blast
  ultimately show ?thesis
    using apache_text[of hl yr] bsd_text[of hl yr] mit_text[of hl yr] gpl3_text[of hl yr]
    by (intro conjI)
qed

theorem CopyrightMap_render_witness:
  "CopyrightMap ''gpl2'' = None \<and>
   CopyrightMap (license (getExtensionConfig
      (example_host\<lparr>configView := (configView example_host)\<lparr>cfg_license := Some ''gpl2''\<rparr>\<rparr>))) = None \<and>
   insertHeader (example_host\<lparr>configView := (configView example_host)\<lparr>cfg_license := Some ''gpl2''\<rparr>\<rparr>)
      Map.empty (Some one_line_cpp) = (Inr UnsupportedLicense, Map.empty) \<and>
   bsd ''Google LLC'' ''2019'' =
      ''Copyright (c) 2019 Google LLC All rights reserved.'' @ NL @
      ''Use of this source code is governed by a BSD-style'' @ NL @
      ''license that can be found in the LICENSE file.''"
proof -
  let ?h = "example_host\<lparr>configView := (configView example_host)\<lparr>cfg_license := Some ''gpl2''\<rparr>\<rparr>"
  have k: "''gpl2'' \<notin> {''apache'', ''bsd'', ''mit'', ''gpl3''}"
    by simp
  have l: "CopyrightMap (license (getExtensionConfig ?h)) = None"
    by (simp add: getExtensionConfig_def example_host_def truthy_def CopyrightMap_cases)
  note th = CopyrightMap_render[where key = "''gpl2''" and h = ?h and cached = Map.empty
        and editor = "Some one_line_cpp" and hl = "''Google LLC''" and yr = "''2019''"]
  have n: "CopyrightMap ''gpl2'' = None"
    using th k by blast
  have i: "insertHeader ?h Map.empty (Some one_line_cpp) = (Inr UnsupportedLicense, Map.empty)"
    using th l by blast
  have b: "bsd ''Google LLC'' ''2019'' =
      ''Copyright (c) '' @ ''2019'' @ '' '' @ ''Google LLC'' @ '' All rights reserved.'' @ NL @
      ''Use of this source code is governed by a BSD-style'' @ NL @
      ''license that can be found in the LICENSE file.''"
    using th by blast
  show ?thesis
    using n l i b by simp
qed

text \<open>
  C6 as stated fails on the BSD template: its first line does not end after the holder.
\<close>

theorem bsd_first_line_longer:
  "hd (split_nl (bsd ''Google LLC'' ''2019'')) =
     ''Copyright (c) 2019 Google LLC All rights reserved.'' \<and>
   hd (split_nl (bsd ''Google LLC'' ''2019'')) \<noteq> ''Copyright (c) 2019 Google LLC''"
  by code_simp

text \<open>
  C1 fails on the program when the holder is not set: \<^verbatim>\<open>String(undefined)\<close> is a string that
  is not empty, so the constructor keeps it, and the holder of the data is \<^verbatim>\<open>undefined\<close> in
  place of the default.
\<close>

theorem getExtensionConfig_unset_holder:
  "holder (data (getExtensionConfig (h\<lparr>configView := (configView h)\<lparr>cfg_holder := None\<rparr>\<rparr>))) =
     ''undefined''"
  by (simp add: getExtensionConfig_def new_CopyrightData_def String_of_def Let_def)



text \<open>
  C9, as the program has it. When an invocation asks for an edit, the language is the one the
  resolver returns for the document, the header is that language's formatted header, and the
  text of the edit is the header, with one line feed before it exactly when the insertion
  line equals the number of lines of the document. That is so only for a document of one
  line whose insertion line is 1; the edit then lands at the end of the document, after its
  only line.
\<close>

theorem insertHeader_newline_prefix:
  assumes "fst (insertHeader h cached (Some doc)) = Inr (Inserted line text)"
  shows "\<exists>template language header cached'.
           CopyrightMap (license (getExtensionConfig h)) = Some template \<and>
           getLanguageConfigById h cached (languageId doc) (fileName doc) =
             Inr (Some language, cached') \<and>
           hasCopyright doc (comments (vsconfig language)) = Inr False \<and>
           formatHeader template (data (getExtensionConfig h)) (vsconfig language)
             (useLineComment (getExtensionConfig h)) = Inr header \<and>
           line = calculateInsertLineIndex h doc language \<and>
           text = (if line = lineCount doc then NL @ header else header) \<and>
           (line = lineCount doc \<longleftrightarrow> lineCount doc = 1 \<and> line = 1) \<and>
           (line = lineCount doc \<longrightarrow>
              content (insert_at doc line text) = content doc @ NL @ header)"
proof -
  obtain template language header cached' where
    t: "CopyrightMap (license (getExtensionConfig h)) = Some template" and
    g: "getLanguageConfigById h cached (languageId doc) (fileName doc) =
             Inr (Some language, cached')" and
    c: "hasCopyright doc (comments (vsconfig language)) = Inr False" and
    f: "formatHeader template (data (getExtensionConfig h)) (vsconfig language)
             (useLineComment (getExtensionConfig h)) = Inr header" and
    l: "line = calculateInsertLineIndex h doc language" and
    x: "text = (if line = lineCount doc then NL @ header else header)"
    using insertHeader_Inserted[OF assms] by blast
  have "line \<le> 1"
    using l calculateInsertLineIndex_le by simp
  then have i: "line = lineCount doc \<longleftrightarrow> lineCount doc = 1 \<and> line = 1"
    using lineCount_pos[of doc] by auto
  have "content (insert_at doc line text) = content doc @ NL @ header" if "line = lineCount doc"
    using that x by (simp add: insert_at_def)
  with t g c f l x i show ?thesis by blast
qed

theorem insertHeader_newline_prefix_witness:
  "fst (insertHeader example_host Map.empty (Some one_line_sh)) =
     Inr (Inserted 1 (NL @
          ''# Copyright (c) 2019 Google LLC All rights reserved.'' @ NL @
          ''# Use of this source code is governed by a BSD-style'' @ NL @
          ''# license that can be found in the LICENSE file.'' @ NL @ NL)) \<and>
   (\<exists>header. (1::nat) = lineCount one_line_sh \<and>
      NL @ ''# Copyright (c) 2019 Google LLC All rights reserved.'' @ NL @
          ''# Use of this source code is governed by a BSD-style'' @ NL @
          ''# license that can be found in the LICENSE file.'' @ NL @ NL = NL @ header)"
proof -
  have a: "fst (insertHeader example_host Map.empty (Some one_line_sh)) =
     Inr (Inserted 1 (NL @
          ''# Copyright (c) 2019 Google LLC All rights reserved.'' @ NL @
          ''# Use of this source code is governed by a BSD-style'' @ NL @
          ''# license that can be found in the LICENSE file.'' @ NL @ NL))"
    by code_simp
  have b: "lineCount one_line_sh = 1"
    by code_simp
  show ?thesis
    using a b insertHeader_newline_prefix[OF a] by auto
qed

text \<open>
  C9 as stated fails on a document of one line that need not stay first: the insertion line
  is 0, and the header is inserted with no line feed before it.
\<close>

theorem insertHeader_one_line_no_prefix:
  "lineCount one_line_cpp = 1 \<and>
   fst (insertHeader example_host Map.empty (Some one_line_cpp)) =
     Inr (Inserted 0 (''/**'' @ NL @
          '' * Copyright (c) 2019 Google LLC All rights reserved.'' @ NL @
          '' * Use of this source code is governed by a BSD-style'' @ NL @
          '' * license that can be found in the LICENSE file.'' @ NL @
          '' */'' @ NL @ NL))"
  by code_simp

section \<open>Loading and resolving a language configuration\<close>

lemma strip_comment_lines_eq:
  "n \<le> length ls \<Longrightarrow>
   strip_comment_lines n ls =
     map (\<lambda>l. if startsWith (trimStart l) ''//'' then CR else l) (take n ls) @ drop n ls"
proof (induction n arbitrary: ls)
  case 0
  then show ?case by simp
next
  case (Suc n)
  let ?f = "\<lambda>l. if startsWith (trimStart l) ''//'' then CR else l"
  let ?ls' = "if startsWith (trimStart (ls ! n)) ''//'' then ls[n := CR] else ls"
  have n: "n < length ls" using Suc.prems by simp
  have len: "n \<le> length ?ls'" using n by simp
  have tk: "take n ?ls' = take n ls" by simp
  have dr: "drop n ?ls' = ?f (ls ! n) # drop (Suc n) ls"
    using n by (simp add: drop_update_swap Cons_nth_drop_Suc upd_conv_take_nth_drop)
  have "strip_comment_lines (Suc n) ls = strip_comment_lines n ?ls'" by simp
  also have "\<dots> = map ?f (take n ?ls') @ drop n ?ls'" using Suc.IH[OF len] .
  also have "\<dots> = map ?f (take n ls) @ ?f (ls ! n) # drop (Suc n) ls"
    unfolding tk dr ..
  also have "\<dots> = map ?f (take (Suc n) ls) @ drop (Suc n) ls"
    using n by (simp add: take_Suc_conv_app_nth)
  finally show ?case .
qed

lemma trimRight_prefix: "\<exists>r. s = trimRight s @ r"
proof -
  have "rev s = takeWhile isWhiteSpace (rev s) @ dropWhile isWhiteSpace (rev s)" by simp
  then have "s = rev (dropWhile isWhiteSpace (rev s)) @ rev (takeWhile isWhiteSpace (rev s))"
    by (metis rev_append rev_rev_ident)
  then show ?thesis unfolding trimRight_def by blast
qed

lemma startsWith_trim:
  "startsWith (trim l) ''//'' = startsWith (trimStart l) ''//''"
proof
  assume a: "startsWith (trim l) ''//''"
  obtain r where r: "trimStart l = trim l @ r"
    using trimRight_prefix[of "trimStart l"] by (auto simp: trim_def)
  from a have "length (trim l) \<ge> 2" by (auto simp: startsWith_def) (metis length_take min.cobounded1 length_Cons list.size(3) One_nat_def Suc_1)
  with a r show "startsWith (trimStart l) ''//''"
    by (simp add: startsWith_def)
next
  assume a: "startsWith (trimStart l) ''//''"
  then obtain r where r: "trimStart l = CHR ''/'' # CHR ''/'' # r"
    by (cases "trimStart l"; cases "tl (trimStart l)") (auto simp: startsWith_def)
  have ns: "\<not> isWhiteSpace CHR ''/''" by (simp add: isWhiteSpace_def)
  have "trimRight (CHR ''/'' # CHR ''/'' # r) = CHR ''/'' # CHR ''/'' # trimRight r"
    using trimRight_keep[OF ns, of "[]" "CHR ''/'' # r"] trimRight_keep[OF ns, of "[]" r] by simp
  then show "startsWith (trim l) ''//''"
    by (simp add: trim_def r startsWith_def)
qed

lemma find_append':
  "find P (xs @ ys) = (case find P xs of None \<Rightarrow> find P ys | Some x \<Rightarrow> Some x)"
  by (induction xs) auto

lemma find_map_Pair:
  "find (\<lambda>p. P (snd p)) (map (Pair x) ls) = map_option (Pair x) (find P ls)"
  by (induction ls) auto

lemma loadLanguageConfiguration_eq:
  "loadLanguageConfiguration h uri =
     (case require h uri of
        Inr v \<Rightarrow> Inr v
      | Inl e \<Rightarrow>
          if e = SyntaxError then
            (case readFileSync h uri of
               Inl e' \<Rightarrow> Inl e'
             | Inr text \<Rightarrow>
                 JSON_parse h
                   (join_nl (map (\<lambda>l. if startsWith (trim l) ''//'' then CR else l) (split_nl text))))
          else Inl e)"
  by (simp add: loadLanguageConfiguration_def bind_err_def Let_def strip_comment_lines_eq
        startsWith_trim split: sum.split)

lemma find_language_eq:
  assumes "fileExt = [] \<or> (\<forall>it \<in> set ls. contrib_id it = id' \<longrightarrow> contrib_extensions it \<noteq> None)"
  shows "find_language id' fileExt ls =
     Inr (find (\<lambda>it. contrib_id it = id' \<and>
                  (fileExt = [] \<or>
                   (case contrib_extensions it of None \<Rightarrow> False | Some exts \<Rightarrow> fileExt \<in> set exts))) ls)"
  using assms by (induction ls) (auto split: option.splits)

lemma scan_extensions_find:
  assumes fl: "\<And>x ls. x \<in> set xs \<Longrightarrow> contributes_languages x = Some ls \<Longrightarrow>
                 find_language id' fileExt ls = Inr (find P ls)"
  shows "scan_extensions h id' fileExt cached xs =
     (case find (\<lambda>p. P (snd p))
             (concat (map (\<lambda>x. case contributes_languages x of None \<Rightarrow> [] | Some ls \<Rightarrow> map (Pair x) ls) xs)) of
        None \<Rightarrow> Inr (None, cached)
      | Some (x, it) \<Rightarrow>
          bind_err (make_config h id' x it)
            (\<lambda>config. Inr (Some config, cached(id' @ ''+'' @ fileExt \<mapsto> config))))"
  using fl
proof (induction xs)
  case Nil
  then show ?case by simp
next
  case (Cons x xs)
  have ih: "scan_extensions h id' fileExt cached xs =
     (case find (\<lambda>p. P (snd p))
             (concat (map (\<lambda>x. case contributes_languages x of None \<Rightarrow> [] | Some ls \<Rightarrow> map (Pair x) ls) xs)) of
        None \<Rightarrow> Inr (None, cached)
      | Some (x, it) \<Rightarrow>
          bind_err (make_config h id' x it)
            (\<lambda>config. Inr (Some config, cached(id' @ ''+'' @ fileExt \<mapsto> config))))"
    by (rule Cons.IH) (rule Cons.prems, simp_all)
  show ?case
  proof (cases "contributes_languages x")
    case None
    then show ?thesis using ih by simp
  next
    case (Some ls)
    have f: "find_language id' fileExt ls = Inr (find P ls)"
      by (rule Cons.prems[OF _ Some]) simp
    show ?thesis
    proof (cases "find P ls")
      case None
      then show ?thesis
        using ih by (simp add: Some f find_append' find_map_Pair)
    next
      case (Some it)
      then show ?thesis
        by (simp add: \<open>contributes_languages x = Some ls\<close> f find_append' find_map_Pair)
    qed
  qed
qed

lemma scan_extensions_eq:
  assumes "fileExt = [] \<or>
     (\<forall>x \<in> set xs. \<forall>ls. contributes_languages x = Some ls \<longrightarrow>
        (\<forall>it \<in> set ls. contrib_id it = id' \<longrightarrow> contrib_extensions it \<noteq> None))"
  shows "scan_extensions h id' fileExt cached xs =
     (case find (\<lambda>p. contrib_id (snd p) = id' \<and>
                  (fileExt = [] \<or>
                   (case contrib_extensions (snd p) of None \<Rightarrow> False | Some exts \<Rightarrow> fileExt \<in> set exts)))
             (concat (map (\<lambda>x. case contributes_languages x of None \<Rightarrow> [] | Some ls \<Rightarrow> map (Pair x) ls) xs)) of
        None \<Rightarrow> Inr (None, cached)
      | Some (x, it) \<Rightarrow>
          bind_err (make_config h id' x it)
            (\<lambda>config. Inr (Some config, cached(id' @ ''+'' @ fileExt \<mapsto> config))))"
proof (rule scan_extensions_find)
  fix x ls
  assume "x \<in> set xs" "contributes_languages x = Some ls"
  then have "fileExt = [] \<or> (\<forall>it \<in> set ls. contrib_id it = id' \<longrightarrow> contrib_extensions it \<noteq> None)"
    using assms by blast
  then show "find_language id' fileExt ls =
     Inr (find (\<lambda>it. contrib_id it = id' \<and>
                  (fileExt = [] \<or>
                   (case contrib_extensions it of None \<Rightarrow> False | Some exts \<Rightarrow> fileExt \<in> set exts))) ls)"
    by (rule find_language_eq)
qed

lemma getLanguageConfigById_miss_eq:
  assumes "cached (id' @ ''+'' @ toLowerCase (extname h fileName')) = None"
    and "toLowerCase (extname h fileName') = [] \<or>
     (\<forall>x \<in> set (extensions_all h). \<forall>ls. contributes_languages x = Some ls \<longrightarrow>
        (\<forall>it \<in> set ls. contrib_id it = id' \<longrightarrow> contrib_extensions it \<noteq> None))"
  shows "getLanguageConfigById h cached id' fileName' =
     (case find (\<lambda>p. contrib_id (snd p) = id' \<and>
                  (toLowerCase (extname h fileName') = [] \<or>
                   (case contrib_extensions (snd p) of
                      None \<Rightarrow> False
                    | Some exts \<Rightarrow> toLowerCase (extname h fileName') \<in> set exts)))
             (installed_languages h) of
        None \<Rightarrow> Inr (None, cached)
      | Some (x, it) \<Rightarrow>
          bind_err (make_config h id' x it)
            (\<lambda>config. Inr (Some config,
                             cached(id' @ ''+'' @ toLowerCase (extname h fileName') \<mapsto> config))))"
  unfolding getLanguageConfigById_def Let_def installed_languages_def
  using scan_extensions_eq[OF assms(2), of h cached] assms(1) by simp

lemma make_config_load_error:
  assumes "truthy (contrib_firstLine d) \<longrightarrow> regexp_compiles h (the (contrib_firstLine d))"
    and "contrib_configuration d = Some p"
    and "loadLanguageConfiguration h (path_join h (extensionPath x) p) = Inl e"
  shows "make_config h id' x d = Inl e"
  using assms by (simp add: make_config_def bind_err_def)

lemma insertHeader_resolve_error:
  assumes "getLanguageConfigById h cached (languageId doc) (fileName doc) = Inl e"
    and "CopyrightMap (license (getExtensionConfig h)) \<noteq> None"
  shows "insertHeader h cached (Some doc) = (Inl e, cached)"
  using assms by (auto simp: insertHeader_def Let_def)

lemma scan_extensions_skip:
  assumes "\<forall>y \<in> set pre. \<forall>ls. contributes_languages y = Some ls \<longrightarrow>
             find_language id' fileExt ls = Inr None"
  shows "scan_extensions h id' fileExt cached (pre @ xs) = scan_extensions h id' fileExt cached xs"
  using assms
proof (induction pre)
  case Nil
  show ?case by simp
next
  case (Cons y pre)
  then have ih: "scan_extensions h id' fileExt cached (pre @ xs) =
                   scan_extensions h id' fileExt cached xs"
    by simp
  show ?case
  proof (cases "contributes_languages y")
    case None
    then show ?thesis using ih by simp
  next
    case (Some ls)
    then have "find_language id' fileExt ls = Inr None"
      using Cons.prems by simp
    then show ?thesis using ih Some by simp
  qed
qed

lemma getLanguageConfigById_load_error:
  assumes miss: "cached (id' @ ''+'' @ toLowerCase (extname h fileName')) = None"
    and exts: "extensions_all h = pre @ x # rest"
    and pre: "\<forall>y \<in> set pre. \<forall>ls. contributes_languages y = Some ls \<longrightarrow>
             find_language id' (toLowerCase (extname h fileName')) ls = Inr None"
    and x: "contributes_languages x = Some ls"
    and d: "find_language id' (toLowerCase (extname h fileName')) ls = Inr (Some d)"
    and fl: "truthy (contrib_firstLine d) \<longrightarrow> regexp_compiles h (the (contrib_firstLine d))"
    and p: "contrib_configuration d = Some p"
    and load: "loadLanguageConfiguration h (path_join h (extensionPath x) p) = Inl err"
  shows "getLanguageConfigById h cached id' fileName' = Inl err"
proof -
  let ?e = "toLowerCase (extname h fileName')"
  have m: "make_config h id' x d = Inl err"
    using make_config_load_error[OF fl p load] .
  have "scan_extensions h id' ?e cached (x # rest) = Inl err"
    using x d m by (simp add: bind_err_def)
  then have "scan_extensions h id' ?e cached (pre @ x # rest) = Inl err"
    using scan_extensions_skip[OF pre] by simp
  then show ?thesis
    using miss exts by (simp add: getLanguageConfigById_def Let_def)
qed

text \<open>
  C8. \<open>loadLanguageConfiguration\<close> returns what \<^verbatim>\<open>require\<close> returns; when \<^verbatim>\<open>require\<close> fails with a
  syntax error, and only then, it reads the file, replaces each line whose trimmed text starts
  with \<^verbatim>\<open>//\<close> by a carriage return, and returns what \<^verbatim>\<open>JSON.parse\<close> makes of the lines joined
  again; every other failure of \<^verbatim>\<open>require\<close> is the failure of the load. On a cache miss, when
  the first pack with a matching definition stands anywhere among the installed extensions
  and the load of its configuration fails, the resolver fails with the same error, and so
  does the invocation, which leaves the cache as it was.
\<close>

theorem loadLanguageConfiguration_two_stage:
  "loadLanguageConfiguration h uri =
     (case require h uri of
        Inr v \<Rightarrow> Inr v
      | Inl e \<Rightarrow>
          if e = SyntaxError then
            (case readFileSync h uri of
               Inl e' \<Rightarrow> Inl e'
             | Inr text \<Rightarrow>
                 JSON_parse h
                   (join_nl (map (\<lambda>l. if startsWith (trim l) ''//'' then CR else l) (split_nl text))))
          else Inl e) \<and>
   (cached (languageId doc @ ''+'' @ toLowerCase (extname h (fileName doc))) = None \<and>
    extensions_all h = pre @ x # rest \<and>
    (\<forall>y \<in> set pre. \<forall>ls. contributes_languages y = Some ls \<longrightarrow>
       find_language (languageId doc) (toLowerCase (extname h (fileName doc))) ls = Inr None) \<and>
    contributes_languages x = Some ls \<and>
    find_language (languageId doc) (toLowerCase (extname h (fileName doc))) ls = Inr (Some d) \<and>
    (truthy (contrib_firstLine d) \<longrightarrow> regexp_compiles h (the (contrib_firstLine d))) \<and>
    contrib_configuration d = Some p \<and>
    loadLanguageConfiguration h (path_join h (extensionPath x) p) = Inl err \<longrightarrow>
      getLanguageConfigById h cached (languageId doc) (fileName doc) = Inl err \<and>
      (CopyrightMap (license (getExtensionConfig h)) \<noteq> None \<longrightarrow>
         insertHeader h cached (Some doc) = (Inl err, cached)))"
proof (intro conjI impI)
  show "loadLanguageConfiguration h uri =
     (case require h uri of
        Inr v \<Rightarrow> Inr v
      | Inl e \<Rightarrow>
          if e = SyntaxError then
            (case readFileSync h uri of
               Inl e' \<Rightarrow> Inl e'
             | Inr text \<Rightarrow>
                 JSON_parse h
                   (join_nl (map (\<lambda>l. if startsWith (trim l) ''//'' then CR else l) (split_nl text))))
          else Inl e)"
    by (rule loadLanguageConfiguration_eq)
next
  assume a: "cached (languageId doc @ ''+'' @ toLowerCase (extname h (fileName doc))) = None \<and>
    extensions_all h = pre @ x # rest \<and>
    (\<forall>y \<in> set pre. \<forall>ls. contributes_languages y = Some ls \<longrightarrow>
       find_language (languageId doc) (toLowerCase (extname h (fileName doc))) ls = Inr None) \<and>
    contributes_languages x = Some ls \<and>
    find_language (languageId doc) (toLowerCase (extname h (fileName doc))) ls = Inr (Some d) \<and>
    (truthy (contrib_firstLine d) \<longrightarrow> regexp_compiles h (the (contrib_firstLine d))) \<and>
    contrib_configuration d = Some p \<and>
    loadLanguageConfiguration h (path_join h (extensionPath x) p) = Inl err"
  then show g: "getLanguageConfigById h cached (languageId doc) (fileName doc) = Inl err"
    using getLanguageConfigById_load_error[of cached "languageId doc" h "fileName doc" pre x rest ls d p err]
    by blast
  assume "CopyrightMap (license (getExtensionConfig h)) \<noteq> None"
  then show "insertHeader h cached (Some doc) = (Inl err, cached)"
    using insertHeader_resolve_error[OF g] by blast
qed

theorem loadLanguageConfiguration_two_stage_witness:
  "require example_host ''/ext/make/make.json'' = Inl SyntaxError \<and>
   loadLanguageConfiguration example_host ''/ext/make/make.json'' = Inr hash_comments \<and>
   extensions_all example_host = [cpp_extension, shell_extension, make_extension] @ ini_extension # [] \<and>
   loadLanguageConfiguration example_host (path_join example_host (extensionPath ini_extension) ''ini.json'') =
     Inl OtherError \<and>
   getLanguageConfigById example_host Map.empty (languageId ini_doc) (fileName ini_doc) = Inl OtherError \<and>
   insertHeader example_host Map.empty (Some ini_doc) = (Inl OtherError, Map.empty)"
proof -
  let ?d = "\<lparr>contrib_id = ''ini'', contrib_extensions = Some [''.ini''],
          contrib_firstLine = None, contrib_configuration = Some ''ini.json''\<rparr>"
  let ?pre = "[cpp_extension, shell_extension, make_extension]"
  have r: "require example_host ''/ext/make/make.json'' = Inl SyntaxError"
    by (simp add: example_host_def)
  have e: "toLowerCase (extname example_host (fileName ini_doc)) = ''.ini''"
    by (simp add: example_host_def toLowerCase_def toLowerCase_unit_def example_extname_def ini_doc_def)
  have i: "languageId ini_doc = ''ini''"
    by (simp add: ini_doc_def)
  have m: "Map.empty (languageId ini_doc @ ''+'' @ toLowerCase (extname example_host (fileName ini_doc))) =
             (None :: LanguageConfig option)"
    by simp
  have x: "extensions_all example_host = ?pre @ ini_extension # []"
    by (simp add: example_host_def)
  have s: "\<forall>y \<in> set ?pre. \<forall>ls. contributes_languages y = Some ls \<longrightarrow>
       find_language (languageId ini_doc) (toLowerCase (extname example_host (fileName ini_doc))) ls =
         Inr None"
    unfolding e i by (simp add: cpp_extension_def shell_extension_def make_extension_def)
  have c: "contributes_languages ini_extension = Some [?d]"
    by (simp add: ini_extension_def)
  have f: "find_language (languageId ini_doc) (toLowerCase (extname example_host (fileName ini_doc))) [?d] =
             Inr (Some ?d)"
    unfolding e i by simp
  have t: "truthy (contrib_firstLine ?d) \<longrightarrow> regexp_compiles example_host (the (contrib_firstLine ?d))"
    by (simp add: truthy_def)
  have p: "contrib_configuration ?d = Some ''ini.json''"
    by simp
  have l: "loadLanguageConfiguration example_host
             (path_join example_host (extensionPath ini_extension) ''ini.json'') = Inl OtherError"
    by (simp add: loadLanguageConfiguration_def example_host_def ini_extension_def)
  have k: "CopyrightMap (license (getExtensionConfig example_host)) \<noteq> None"
    by (simp add: getExtensionConfig_def example_host_def truthy_def CopyrightMap_cases)
  note th = loadLanguageConfiguration_two_stage[where h = example_host and uri = "''/ext/make/make.json''"
      and cached = Map.empty and doc = ini_doc and pre = ?pre and x = ini_extension and rest = "[]"
      and ls = "[?d]" and d = ?d and p = "''ini.json''" and err = OtherError]
  have ld: "loadLanguageConfiguration example_host ''/ext/make/make.json'' = Inr hash_comments"
    using th r by (simp add: example_host_def make_json_def startsWith_def trim_def trimStart_def
        trimRight_def isWhiteSpace_def)
  have "getLanguageConfigById example_host Map.empty (languageId ini_doc) (fileName ini_doc) =
          Inl OtherError \<and>
        insertHeader example_host Map.empty (Some ini_doc) = (Inl OtherError, Map.empty)"
    using th m x s c f t p l k by blast
  then show ?thesis
    using r ld x l by blast
qed

text \<open>
  C2, as the program has it. On a cache miss, provided every installed definition with the
  language id declares an extension list when the file has an extension, the resolver takes
  the first installed definition, in the order of the host, whose id is the language id and
  which either is asked for a file without extension or has the lowercased extension of the
  file in its list. It builds the configuration from that definition and stores it in the
  cache; with no such definition it returns nothing and leaves the cache as it was.
\<close>

theorem getLanguageConfigById_first_match:
  assumes "cached (id' @ ''+'' @ toLowerCase (extname h fileName')) = None"
    and "toLowerCase (extname h fileName') = [] \<or>
     (\<forall>x \<in> set (extensions_all h). \<forall>ls. contributes_languages x = Some ls \<longrightarrow>
        (\<forall>it \<in> set ls. contrib_id it = id' \<longrightarrow> contrib_extensions it \<noteq> None))"
  shows "getLanguageConfigById h cached id' fileName' =
     (case find (\<lambda>p. contrib_id (snd p) = id' \<and>
                  (toLowerCase (extname h fileName') = [] \<or>
                   (case contrib_extensions (snd p) of
                      None \<Rightarrow> False
                    | Some exts \<Rightarrow> toLowerCase (extname h fileName') \<in> set exts)))
             (installed_languages h) of
        None \<Rightarrow> Inr (None, cached)
      | Some (x, it) \<Rightarrow>
          bind_err (make_config h id' x it)
            (\<lambda>config. Inr (Some config,
                             cached(id' @ ''+'' @ toLowerCase (extname h fileName') \<mapsto> config))))"
  using assms by (rule getLanguageConfigById_miss_eq)

theorem getLanguageConfigById_first_match_witness:
  "Map.empty (''cpp'' @ ''+'' @ toLowerCase (extname example_host ''main.cpp'')) =
     (None :: LanguageConfig option) \<and>
   map_sum id fst (getLanguageConfigById example_host Map.empty ''cpp'' ''main.cpp'') =
     Inr (Some \<lparr>lang_id = ''cpp'', firstLine = None, vsconfig = both_comments\<rparr>)"
proof -
  have m: "Map.empty (''cpp'' @ ''+'' @ toLowerCase (extname example_host ''main.cpp'')) =
             (None :: LanguageConfig option)"
    by simp
  have d: "\<forall>x \<in> set (extensions_all example_host). \<forall>ls. contributes_languages x = Some ls \<longrightarrow>
        (\<forall>it \<in> set ls. contrib_id it = ''cpp'' \<longrightarrow> contrib_extensions it \<noteq> None)"
    by (simp add: example_host_def cpp_extension_def shell_extension_def make_extension_def
          ini_extension_def)
  note r = getLanguageConfigById_first_match[OF m disjI2[OF d]]
  have "map_sum id fst
     (case find (\<lambda>p. contrib_id (snd p) = ''cpp'' \<and>
                  (toLowerCase (extname example_host ''main.cpp'') = [] \<or>
                   (case contrib_extensions (snd p) of
                      None \<Rightarrow> False
                    | Some exts \<Rightarrow> toLowerCase (extname example_host ''main.cpp'') \<in> set exts)))
             (installed_languages example_host) of
        None \<Rightarrow> Inr (None, Map.empty)
      | Some (x, it) \<Rightarrow>
          bind_err (make_config example_host ''cpp'' x it)
            (\<lambda>config. Inr (Some config,
                      Map.empty(''cpp'' @ ''+'' @ toLowerCase (extname example_host ''main.cpp'') \<mapsto> config)))) =
     Inr (Some \<lparr>lang_id = ''cpp'', firstLine = None, vsconfig = both_comments\<rparr>)"
    by code_simp
  then have "map_sum id fst (getLanguageConfigById example_host Map.empty ''cpp'' ''main.cpp'') =
     Inr (Some \<lparr>lang_id = ''cpp'', firstLine = None, vsconfig = both_comments\<rparr>)"
    unfolding r .
  with m show ?thesis by blast
qed

text \<open>
  C2 as stated fails on a file without extension: \<^verbatim>\<open>Makefile\<close> is resolved to the definition
  of \<^verbatim>\<open>makefile\<close>, whose extension list is neither empty nor has the empty extension, so that
  the rule of the claim finds no definition.
\<close>

theorem getLanguageConfigById_no_extension_file:
  "spec_resolve example_host ''makefile'' (toLowerCase (extname example_host ''Makefile'')) = None \<and>
   map_sum id fst (getLanguageConfigById example_host Map.empty ''makefile'' ''Makefile'') =
     Inr (Some \<lparr>lang_id = ''makefile'', firstLine = None, vsconfig = hash_comments\<rparr>)"
  by code_simp

section \<open>Detection of a header\<close>

lemma escaped_is_punctuation:
  "c \<in> set ''-/^$*+?.()|[]{}'' \<or> c = CHR 0x5C \<Longrightarrow>
   isSyntaxCharacter c \<or> c = CHR ''/'' \<or> c = CHR ''-''"
  by (auto simp: isSyntaxCharacter_def)

lemma unescaped_is_plain:
  "\<not> (c \<in> set ''-/^$*+?.()|[]{}'' \<or> c = CHR 0x5C) \<Longrightarrow>
   c \<noteq> CHR 0x5C \<and> c \<noteq> CHR ''^'' \<and> c \<noteq> CHR ''*'' \<and> c \<noteq> CHR ''.'' \<and> \<not> isSyntaxCharacter c"
  by (auto simp: isSyntaxCharacter_def)

lemma lex_escape:
  "lex (escapeStringForRegexp tok @ rest) =
     map_option (\<lambda>ts. map (\<lambda>c. TAtom (AChar c)) tok @ ts) (lex rest)"
proof (induction tok)
  case Nil
  show ?case by (simp add: escapeStringForRegexp_def option.map_ident)
next
  case (Cons c tok)
  have ih: "lex (concat (map (\<lambda>c. if c \<in> set ''-/^$*+?.()|[]{}'' \<or> c = CHR 0x5C then [CHR 0x5C, c] else [c]) tok) @ rest) =
     map_option (\<lambda>ts. map (\<lambda>c. TAtom (AChar c)) tok @ ts) (lex rest)"
    using Cons.IH by (simp add: escapeStringForRegexp_def)
  show ?case
  proof (cases "c \<in> set ''-/^$*+?.()|[]{}'' \<or> c = CHR 0x5C")
    case True
    have p: "isSyntaxCharacter c \<or> c = CHR ''/'' \<or> c = CHR ''-''"
      using escaped_is_punctuation[OF True] .
    have "escapeStringForRegexp (c # tok) @ rest =
            CHR 0x5C # c # (escapeStringForRegexp tok @ rest)"
      using True by (simp add: escapeStringForRegexp_def)
    then show ?thesis
      using p Cons.IH by (simp add: option.map_comp comp_def)
  next
    case False
    note q = unescaped_is_plain[OF False]
    have "escapeStringForRegexp (c # tok) @ rest = c # (escapeStringForRegexp tok @ rest)"
      using False by (simp add: escapeStringForRegexp_def)
    then show ?thesis
      using q Cons.IH by (simp add: option.map_comp comp_def)
  qed
qed

lemma lex_tail:
  "lex ''.*Copyright'' = Some (TAtom ADot # TStar # map (\<lambda>c. TAtom (AChar c)) ''Copyright'')"
  by (simp add: isSyntaxCharacter_def)

lemma build_atoms:
  "build (map (\<lambda>c. TAtom (AChar c)) tok @ TAtom a # ts) =
     map_option (\<lambda>is. map (\<lambda>c. One (AChar c)) tok @ is) (build (TAtom a # ts))"
proof (induction tok)
  case Nil
  show ?case by (simp add: option.map_ident)
next
  case (Cons c tok)
  then show ?case
    by (cases tok) (simp_all add: option.map_comp comp_def)
qed

lemma build_tail:
  "build (TAtom ADot # TStar # map (\<lambda>c. TAtom (AChar c)) ''Copyright'') =
     Some (Star ADot # map (\<lambda>c. One (AChar c)) ''Copyright'')"
  by simp

lemma RegExp_new_pattern:
  "RegExp_new (''^'' @ escapeStringForRegexp tok @ ''.*Copyright'') flags =
     Inr \<lparr>items = Bol # map (\<lambda>c. One (AChar c)) tok @
                    Star ADot # map (\<lambda>c. One (AChar c)) ''Copyright'',
          ignoreCase = (CHR ''i'' \<in> set flags), multiline = (CHR ''m'' \<in> set flags),
          dotAll = (CHR ''s'' \<in> set flags)\<rparr>"
proof -
  have l: "lex (''^'' @ escapeStringForRegexp tok @ ''.*Copyright'') =
        Some (TBol # map (\<lambda>c. TAtom (AChar c)) tok @
              TAtom ADot # TStar # map (\<lambda>c. TAtom (AChar c)) ''Copyright'')"
    using lex_escape[of tok "''.*Copyright''"] by (simp only: lex_tail) simp
  have b: "build (TBol # map (\<lambda>c. TAtom (AChar c)) tok @
              TAtom ADot # TStar # map (\<lambda>c. TAtom (AChar c)) ''Copyright'') =
        Some (Bol # map (\<lambda>c. One (AChar c)) tok @
                    Star ADot # map (\<lambda>c. One (AChar c)) ''Copyright'')"
    using build_atoms[of tok ADot "TStar # map (\<lambda>c. TAtom (AChar c)) ''Copyright''"]
    by (simp only: build.simps build_tail) simp
  show ?thesis
    unfolding RegExp_new_def l by (simp only: Option.bind.simps b) simp
qed

lemma match_here_prev:
  "Bol \<notin> set r \<Longrightarrow> match_here re r prev s = match_here re r None s"
proof (induction re r prev s rule: match_here.induct)
  case (1 re prev s)
  show ?case by simp
next
  case (2 re r prev s)
  then show ?case by simp
next
  case (3 re a r prev)
  show ?case by simp
next
  case (4 re a r prev x xs)
  show ?case by simp
next
  case (5 re a r prev)
  then show ?case by simp
next
  case (6 re a r prev x xs)
  then show ?case by simp
qed

lemma match_literal:
  assumes "Bol \<notin> set r"
  shows "match_here re (map (\<lambda>c. One (AChar c)) lit @ r) prev s \<longleftrightarrow>
         (\<exists>t s'. s = t @ s' \<and> map (canonicalize re) t = map (canonicalize re) lit \<and>
                  match_here re r None s')"
proof (induction lit arbitrary: prev s)
  case Nil
  show ?case using match_here_prev[OF assms, of re prev s] by simp
next
  case (Cons c lit)
  show ?case
  proof (cases s)
    case Nil
    then show ?thesis by simp
  next
    case (Cons x xs)
    have "match_here re (map (\<lambda>c. One (AChar c)) (c # lit) @ r) prev s \<longleftrightarrow>
          canonicalize re c = canonicalize re x \<and>
          (\<exists>t s'. xs = t @ s' \<and> map (canonicalize re) t = map (canonicalize re) lit \<and>
                  match_here re r None s')"
      using Cons.IH[of "Some x" xs] Cons by simp
    also have "\<dots> \<longleftrightarrow> (\<exists>t s'. s = t @ s' \<and>
          map (canonicalize re) t = map (canonicalize re) (c # lit) \<and> match_here re r None s')"
    proof
      assume "canonicalize re c = canonicalize re x \<and>
          (\<exists>t s'. xs = t @ s' \<and> map (canonicalize re) t = map (canonicalize re) lit \<and>
                  match_here re r None s')"
      then obtain t s' where "canonicalize re c = canonicalize re x" "xs = t @ s'"
        "map (canonicalize re) t = map (canonicalize re) lit" "match_here re r None s'"
        by blast
      then have "s = (x # t) @ s' \<and>
          map (canonicalize re) (x # t) = map (canonicalize re) (c # lit) \<and> match_here re r None s'"
        using Cons by simp
      then show "\<exists>t s'. s = t @ s' \<and>
          map (canonicalize re) t = map (canonicalize re) (c # lit) \<and> match_here re r None s'"
        by blast
    next
      assume "\<exists>t s'. s = t @ s' \<and>
          map (canonicalize re) t = map (canonicalize re) (c # lit) \<and> match_here re r None s'"
      then obtain t s' where t: "s = t @ s'"
        "map (canonicalize re) t = map (canonicalize re) (c # lit)" "match_here re r None s'"
        by blast
      from t(2) obtain y t' where y: "t = y # t'" by (cases t) auto
      with t Cons have "x = y" "xs = t' @ s'" by auto
      with t y show "canonicalize re c = canonicalize re x \<and>
          (\<exists>t s'. xs = t @ s' \<and> map (canonicalize re) t = map (canonicalize re) lit \<and>
                  match_here re r None s')"
        by auto
    qed
    finally show ?thesis .
  qed
qed

lemma match_star_dot:
  assumes "Bol \<notin> set r"
  shows "match_here re (Star ADot # r) prev s \<longleftrightarrow>
         (\<exists>mid s'. s = mid @ s' \<and> (\<forall>c \<in> set mid. dotAll re \<or> \<not> isLineTerminator c) \<and>
                    match_here re r None s')"
proof (induction s arbitrary: prev)
  case Nil
  show ?case using match_here_prev[OF assms, of re prev "[]"] by simp
next
  case (Cons x xs)
  have "match_here re (Star ADot # r) prev (x # xs) \<longleftrightarrow>
        ((dotAll re \<or> \<not> isLineTerminator x) \<and>
         (\<exists>mid s'. xs = mid @ s' \<and> (\<forall>c \<in> set mid. dotAll re \<or> \<not> isLineTerminator c) \<and>
                    match_here re r None s')) \<or>
        match_here re r None (x # xs)"
    using Cons.IH[of "Some x"] match_here_prev[OF assms, of re prev "x # xs"] by simp
  also have "\<dots> \<longleftrightarrow> (\<exists>mid s'. x # xs = mid @ s' \<and>
        (\<forall>c \<in> set mid. dotAll re \<or> \<not> isLineTerminator c) \<and> match_here re r None s')"
  proof
    assume "((dotAll re \<or> \<not> isLineTerminator x) \<and>
         (\<exists>mid s'. xs = mid @ s' \<and> (\<forall>c \<in> set mid. dotAll re \<or> \<not> isLineTerminator c) \<and>
                    match_here re r None s')) \<or>
        match_here re r None (x # xs)"
    then show "\<exists>mid s'. x # xs = mid @ s' \<and>
        (\<forall>c \<in> set mid. dotAll re \<or> \<not> isLineTerminator c) \<and> match_here re r None s'"
    proof
      assume "(dotAll re \<or> \<not> isLineTerminator x) \<and>
         (\<exists>mid s'. xs = mid @ s' \<and> (\<forall>c \<in> set mid. dotAll re \<or> \<not> isLineTerminator c) \<and>
                    match_here re r None s')"
      then obtain mid s' where m: "dotAll re \<or> \<not> isLineTerminator x" "xs = mid @ s'"
        "\<forall>c \<in> set mid. dotAll re \<or> \<not> isLineTerminator c" "match_here re r None s'"
        by blast
      then have "x # xs = (x # mid) @ s' \<and>
        (\<forall>c \<in> set (x # mid). dotAll re \<or> \<not> isLineTerminator c) \<and> match_here re r None s'"
        by auto
      then show ?thesis by blast
    next
      assume "match_here re r None (x # xs)"
      then have "x # xs = [] @ (x # xs) \<and>
        (\<forall>c \<in> set []. dotAll re \<or> \<not> isLineTerminator c) \<and> match_here re r None (x # xs)"
        by simp
      then show ?thesis by blast
    qed
  next
    assume "\<exists>mid s'. x # xs = mid @ s' \<and>
        (\<forall>c \<in> set mid. dotAll re \<or> \<not> isLineTerminator c) \<and> match_here re r None s'"
    then obtain mid s' where m: "x # xs = mid @ s'"
        "\<forall>c \<in> set mid. dotAll re \<or> \<not> isLineTerminator c" "match_here re r None s'"
      by blast
    show "((dotAll re \<or> \<not> isLineTerminator x) \<and>
         (\<exists>mid s'. xs = mid @ s' \<and> (\<forall>c \<in> set mid. dotAll re \<or> \<not> isLineTerminator c) \<and>
                    match_here re r None s')) \<or>
        match_here re r None (x # xs)"
    proof (cases mid)
      case Nil
      with m show ?thesis by simp
    next
      case (Cons y mid')
      with m have "x = y" "xs = mid' @ s'" by auto
      with m Cons show ?thesis by auto
    qed
  qed
  finally show ?case .
qed

lemma search_iff:
  "search re prev s \<longleftrightarrow>
     (\<exists>before s'. s = before @ s' \<and>
        match_here re (items re) (if before = [] then prev else Some (last before)) s')"
proof (induction s arbitrary: prev)
  case Nil
  show ?case by simp
next
  case (Cons x xs)
  show ?case
  proof
    assume "search re prev (x # xs)"
    then consider "match_here re (items re) prev (x # xs)" | "search re (Some x) xs"
      by auto
    then show "\<exists>before s'. x # xs = before @ s' \<and>
        match_here re (items re) (if before = [] then prev else Some (last before)) s'"
    proof cases
      case 1
      then have "x # xs = [] @ (x # xs) \<and>
        match_here re (items re) (if [] = ([]::string) then prev else Some (last [])) (x # xs)"
        by simp
      then show ?thesis by blast
    next
      case 2
      then obtain before s' where b: "xs = before @ s'"
        "match_here re (items re) (if before = [] then Some x else Some (last before)) s'"
        using Cons.IH[of "Some x"] by blast
      then have "x # xs = (x # before) @ s' \<and>
        match_here re (items re) (if x # before = [] then prev else Some (last (x # before))) s'"
        by (cases before) auto
      then show ?thesis by blast
    qed
  next
    assume "\<exists>before s'. x # xs = before @ s' \<and>
        match_here re (items re) (if before = [] then prev else Some (last before)) s'"
    then obtain before s' where b: "x # xs = before @ s'"
        "match_here re (items re) (if before = [] then prev else Some (last before)) s'"
      by blast
    show "search re prev (x # xs)"
    proof (cases before)
      case Nil
      with b have "match_here re (items re) prev (x # xs)" by simp
      then show ?thesis by simp
    next
      case (Cons y before')
      with b have e: "x = y" "xs = before' @ s'" by auto
      have "match_here re (items re) (if before' = [] then Some x else Some (last before')) s'"
        using b(2) Cons e by (cases before') auto
      then have "search re (Some x) xs"
        using Cons.IH[of "Some x"] e by blast
      then show ?thesis by simp
    qed
  qed
qed

lemma Bol_notin_literal: "Bol \<notin> set (map (\<lambda>c. One (AChar c)) lit)"
  by (induction lit) auto

lemma RegExp_test_pattern:
  assumes re: "re = \<lparr>items = Bol # map (\<lambda>c. One (AChar c)) tok @
                    Star ADot # map (\<lambda>c. One (AChar c)) ''Copyright'',
          ignoreCase = True, multiline = True, dotAll = d\<rparr>"
  shows "RegExp_test re text \<longleftrightarrow> comment_then_copyright d tok text"
proof -
  let ?cw = "map (\<lambda>c. One (AChar c)) ''Copyright''"
  let ?R = "map (\<lambda>c. One (AChar c)) tok @ Star ADot # ?cw"
  have canon: "canonicalize re = toUpperCase_unit"
    by (rule ext) (simp add: canonicalize_def re)
  have nb1: "Bol \<notin> set ?cw" by (rule Bol_notin_literal)
  have nb2: "Bol \<notin> set (Star ADot # ?cw)" using nb1 by simp
  have nb0: "Bol \<notin> set ([] :: item list)" by simp
  have word: "match_here re ?cw None s \<longleftrightarrow>
      (\<exists>w rest. s = w @ rest \<and> eq_ignoring_case w ''Copyright'')" for s
    using match_literal[OF nb0, of re "''Copyright''" None s]
    by (simp add: canon eq_ignoring_case_def)
  have star: "match_here re (Star ADot # ?cw) None s \<longleftrightarrow>
      (\<exists>between w rest. s = between @ w @ rest \<and>
         (d \<or> (\<forall>c \<in> set between. \<not> isLineTerminator c)) \<and> eq_ignoring_case w ''Copyright'')" for s
  proof -
    have "match_here re (Star ADot # ?cw) None s \<longleftrightarrow>
       (\<exists>mid s'. s = mid @ s' \<and> (\<forall>c \<in> set mid. dotAll re \<or> \<not> isLineTerminator c) \<and>
                    match_here re ?cw None s')"
      by (rule match_star_dot[OF nb1])
    also have "\<dots> \<longleftrightarrow> (\<exists>between w rest. s = between @ w @ rest \<and>
         (d \<or> (\<forall>c \<in> set between. \<not> isLineTerminator c)) \<and> eq_ignoring_case w ''Copyright'')"
      unfolding word by (auto simp: re)
    finally show ?thesis .
  qed
  have lit: "match_here re ?R p s \<longleftrightarrow>
      (\<exists>t between w rest. s = t @ between @ w @ rest \<and> eq_ignoring_case t tok \<and>
         (d \<or> (\<forall>c \<in> set between. \<not> isLineTerminator c)) \<and> eq_ignoring_case w ''Copyright'')" for p s
  proof -
    have "match_here re ?R p s \<longleftrightarrow>
       (\<exists>t s'. s = t @ s' \<and> map (canonicalize re) t = map (canonicalize re) tok \<and>
                  match_here re (Star ADot # ?cw) None s')"
      by (rule match_literal[OF nb2])
    also have "\<dots> \<longleftrightarrow> (\<exists>t between w rest. s = t @ between @ w @ rest \<and> eq_ignoring_case t tok \<and>
         (d \<or> (\<forall>c \<in> set between. \<not> isLineTerminator c)) \<and> eq_ignoring_case w ''Copyright'')"
      unfolding star canon eq_ignoring_case_def by blast
    finally show ?thesis .
  qed
  have bol: "match_here re (items re) (if before = [] then None else Some (last before)) s \<longleftrightarrow>
      at_line_start before \<and> match_here re ?R (if before = [] then None else Some (last before)) s"
    for before s
    by (simp add: re at_line_start_def)
  have "RegExp_test re text \<longleftrightarrow>
     (\<exists>before s'. text = before @ s' \<and>
        match_here re (items re) (if before = [] then None else Some (last before)) s')"
    unfolding RegExp_test_def by (rule search_iff)
  also have "\<dots> \<longleftrightarrow> (\<exists>before s'. text = before @ s' \<and> at_line_start before \<and>
      (\<exists>t between w rest. s' = t @ between @ w @ rest \<and> eq_ignoring_case t tok \<and>
         (d \<or> (\<forall>c \<in> set between. \<not> isLineTerminator c)) \<and> eq_ignoring_case w ''Copyright''))"
    unfolding bol lit ..
  also have "\<dots> \<longleftrightarrow> comment_then_copyright d tok text"
    unfolding comment_then_copyright_def by blast
  finally show ?thesis .
qed

lemma hasCopyright_eq:
  "hasCopyright doc (Some c) =
     Inr ((\<exists>b0 b1. blockComment c = Some (b0, b1) \<and>
             comment_then_copyright True b0 (getText_lines doc 10)) \<or>
          (truthy (lineComment c) \<and>
             comment_then_copyright False (the (lineComment c)) (getText_lines doc 10)))"
proof -
  have blk: "bind_err (RegExp_new (''^'' @ escapeStringForRegexp b0 @ ''.*Copyright'') ''mis'')
               (\<lambda>re. Inr (RegExp_test re body)) = Inr (comment_then_copyright True b0 body)" for b0 body
    unfolding RegExp_new_pattern bind_err_def
    using RegExp_test_pattern[of _ b0 True body] by simp
  have lin: "bind_err (RegExp_new (''^'' @ escapeStringForRegexp t @ ''.*Copyright'') ''mi'')
               (\<lambda>re. Inr (RegExp_test re body)) = Inr (comment_then_copyright False t body)" for t body
    unfolding RegExp_new_pattern bind_err_def
    using RegExp_test_pattern[of _ t False body] by simp
  show ?thesis
    unfolding hasCopyright_def Let_def blk lin
    by (cases "blockComment c") (auto simp: bind_err_def)
qed

text \<open>
  C5. For a comment rule, \<open>hasCopyright\<close> returns true exactly when the rule has a block comment
  and, in the first ten lines, some line begins with its opener and the word \<^verbatim>\<open>Copyright\<close>
  comes later, on any line, or the rule has a line comment token that is not empty and some
  line begins with it and has the word \<^verbatim>\<open>Copyright\<close> later before any line break; letters are
  compared up to their case. It returns false in every other case.
\<close>

theorem hasCopyright_iff:
  "hasCopyright doc (Some c) =
     Inr ((\<exists>b0 b1. blockComment c = Some (b0, b1) \<and>
             comment_then_copyright True b0 (getText_lines doc 10)) \<or>
          (truthy (lineComment c) \<and>
             comment_then_copyright False (the (lineComment c)) (getText_lines doc 10)))"
  by (rule hasCopyright_eq)

theorem hasCopyright_iff_witness:
  "hasCopyright example_corp_doc
     (Some \<lparr>lineComment = Some ''//'', blockComment = Some (''/*'', ''*/'')\<rparr>) = Inr True"
proof -
  have t: "getText_lines example_corp_doc 10 = ''// Copyright 2020 Example Corp''"
    by (simp add: getText_lines_def lineCount_def example_corp_doc_def)
  have "''// Copyright 2020 Example Corp'' =
          [] @ ''//'' @ '' '' @ ''Copyright'' @ '' 2020 Example Corp'' \<and>
        at_line_start [] \<and> eq_ignoring_case ''//'' ''//'' \<and>
        (False \<or> (\<forall>ch \<in> set '' ''. \<not> isLineTerminator ch)) \<and>
        eq_ignoring_case ''Copyright'' ''Copyright''"
    by (simp add: at_line_start_def eq_ignoring_case_def isLineTerminator_def)
  then have "comment_then_copyright False ''//'' ''// Copyright 2020 Example Corp''"
    unfolding comment_then_copyright_def by blast
  then show ?thesis
    using hasCopyright_iff[of example_corp_doc
        "\<lparr>lineComment = Some ''//'', blockComment = Some (''/*'', ''*/'')\<rparr>"]
    by (simp add: t truthy_def)
qed

section \<open>Running the command twice\<close>

lemma join_nl_take_drop:
  "n < length ls \<Longrightarrow>
   join_nl ls = concat (map (\<lambda>l. l @ NL) (take n ls)) @ join_nl (drop n ls)"
proof (induction n arbitrary: ls)
  case 0
  then show ?case by simp
next
  case (Suc n)
  then obtain l m ms where ls: "ls = l # m # ms"
    by (cases ls; cases "tl ls") auto
  have "n < length (m # ms)" using Suc.prems ls by simp
  from Suc.IH[OF this] show ?case by (simp add: ls)
qed

lemma count_NL_lines:
  "(\<And>l. l \<in> set ls \<Longrightarrow> CHR 0x0A \<notin> set l) \<Longrightarrow>
   length (filter (\<lambda>ch. ch = CHR 0x0A) (concat (map (\<lambda>l. l @ NL) ls))) = length ls"
proof (induction ls)
  case Nil
  show ?case by simp
next
  case (Cons l ls)
  have "filter (\<lambda>ch. ch = CHR 0x0A) l = []"
    using Cons.prems[of l] by (auto simp: filter_empty_conv)
  then show ?case using Cons by simp
qed

lemma getText_lines_cases:
  "getText_lines d n = content d \<or>
   ((\<exists>w. content d = getText_lines d n @ w) \<and>
    length (filter (\<lambda>ch. ch = CHR 0x0A) (getText_lines d n)) = n)"
proof (cases "n < lineCount d")
  case False
  then show ?thesis by (simp add: getText_lines_def)
next
  case True
  let ?ls = "split_nl (content d)"
  have n: "n < length ?ls" using True by (simp add: lineCount_def)
  have g: "getText_lines d n = concat (map (\<lambda>l. l @ NL) (take n ?ls))"
    using True by (simp add: getText_lines_def)
  have "content d = getText_lines d n @ join_nl (drop n ?ls)"
    using join_nl_take_drop[OF n] by (simp add: g join_split_nl)
  moreover have "length (filter (\<lambda>ch. ch = CHR 0x0A) (getText_lines d n)) = n"
  proof -
    have "\<And>l. l \<in> set (take n ?ls) \<Longrightarrow> CHR 0x0A \<notin> set l"
      using split_nl_no_NL by (meson in_set_takeD)
    from count_NL_lines[OF this] show ?thesis using n by (simp add: g)
  qed
  ultimately show ?thesis by blast
qed

lemma getText_lines_prefix:
  assumes c: "content d = u @ v" and k: "length (filter (\<lambda>ch. ch = CHR 0x0A) u) < n"
  shows "\<exists>v'. getText_lines d n = u @ v'"
proof -
  from getText_lines_cases[of d n] show ?thesis
  proof
    assume "getText_lines d n = content d"
    then show ?thesis using c by simp
  next
    assume a: "(\<exists>w. content d = getText_lines d n @ w) \<and>
      length (filter (\<lambda>ch. ch = CHR 0x0A) (getText_lines d n)) = n"
    then obtain w where w: "u @ v = getText_lines d n @ w" using c by auto
    then consider z where "u = getText_lines d n @ z" | z where "getText_lines d n = u @ z"
      by (metis append_eq_append_conv2)
    then show ?thesis
    proof cases
      case 1
      then have "n \<le> length (filter (\<lambda>ch. ch = CHR 0x0A) u)"
        using a by simp
      with k show ?thesis by simp
    next
      case 2
      then show ?thesis by blast
    qed
  qed
qed

lemma split_nl_prefix:
  "CHR 0x0A \<notin> set a \<Longrightarrow> \<exists>x ls. split_nl (a @ rest) = (a @ x) # ls"
proof (induction a)
  case Nil
  then show ?case using split_nl_not_Nil[of rest] by (cases "split_nl rest") auto
next
  case (Cons c a)
  then obtain x ls where "split_nl (a @ rest) = (a @ x) # ls" by auto
  then show ?case using Cons.prems by auto
qed

lemma formatString_Copyright:
  assumes "body = ''Copyright'' @ rest"
  shows "\<exists>z. formatString body f p l =
           (if f \<noteq> [] then f @ NL else []) @ p @ ''Copyright'' @ z"
proof -
  obtain x ls where sp: "split_nl body = (''Copyright'' @ x) # ls"
    using split_nl_prefix[of "''Copyright''" rest] assms by auto
  have ns: "\<not> isWhiteSpace CHR ''t''" by (simp add: isWhiteSpace_def)
  have "trimRight (p @ ''Copyright'' @ x) = (p @ ''Copyrigh'') @ CHR ''t'' # trimRight x"
    using trimRight_keep[OF ns, of "p @ ''Copyrigh''" x] by simp
  then have tr: "trimRight (p @ ''Copyright'' @ x) = p @ ''Copyright'' @ trimRight x"
    by simp
  have "formatString body f p l =
     (if f \<noteq> [] then f @ NL else []) @ p @ ''Copyright'' @
       (trimRight x @ NL @ concat (map (\<lambda>line. trimRight (p @ line) @ NL) ls) @
        (if l \<noteq> [] then l @ NL else []) @ NL)"
    unfolding formatString_eq sp by (simp only: list.map concat.simps tr append_assoc)
  then show ?thesis by blast
qed

lemma insert_at_shape:
  assumes "line \<le> 1"
  shows "\<exists>pre post. content (insert_at doc line (if line = lineCount doc then NL @ header else header)) =
           pre @ header @ post \<and> length (filter (\<lambda>ch. ch = CHR 0x0A) pre) \<le> 1 \<and>
           (pre = [] \<or> last pre = CHR 0x0A)"
proof -
  let ?ls = "split_nl (content doc)"
  obtain l0 rest where ls: "?ls = l0 # rest"
    using split_nl_not_Nil[of "content doc"] by (cases ?ls) auto
  have l0: "CHR 0x0A \<notin> set l0"
    using split_nl_no_NL[of l0 "content doc"] ls by simp
  then have f0: "filter (\<lambda>ch. ch = CHR 0x0A) l0 = []"
    by (auto simp: filter_empty_conv)
  consider "line = 0" | "line = 1" "rest \<noteq> []" | "line = 1" "rest = []"
    using assms by (cases line) auto
  then show ?thesis
  proof cases
    case 1
    have "content (insert_at doc line (if line = lineCount doc then NL @ header else header)) =
            [] @ header @ content doc"
      using 1 split_nl_not_Nil[of "content doc"]
      by (simp add: insert_at_def lineCount_def join_split_nl)
    then show ?thesis by (intro exI[of _ "[]"] exI[of _ "content doc"]) simp
  next
    case 2
    have "content (insert_at doc line (if line = lineCount doc then NL @ header else header)) =
            (l0 @ NL) @ header @ join_nl rest"
      using 2 ls by (cases rest) (simp_all add: insert_at_def lineCount_def)
    then show ?thesis
      using f0 by (intro exI[of _ "l0 @ NL"] exI[of _ "join_nl rest"]) simp
  next
    case 3
    have c: "content doc = l0"
      using join_split_nl[of "content doc"] ls 3 by simp
    have "content (insert_at doc line (if line = lineCount doc then NL @ header else header)) =
            (l0 @ NL) @ header @ []"
      using 3 ls c by (simp add: insert_at_def lineCount_def)
    then show ?thesis
      using f0 by (intro exI[of _ "l0 @ NL"] exI[of _ "[]"]) simp
  qed
qed

lemma scan_extensions_cache:
  "scan_extensions h id' fileExt cached xs = Inr (Some language, cached') \<Longrightarrow>
   cached' = cached(id' @ ''+'' @ fileExt \<mapsto> language)"
proof (induction xs)
  case Nil
  then show ?case by simp
next
  case (Cons x xs)
  show ?case
  proof (cases "contributes_languages x")
    case None
    with Cons show ?thesis by simp
  next
    case (Some ls)
    show ?thesis
    proof (cases "find_language id' fileExt ls")
      case (Inl e)
      with Cons.prems Some show ?thesis by simp
    next
      case (Inr r)
      show ?thesis
      proof (cases r)
        case None
        with Cons Some Inr show ?thesis by simp
      next
        case (Some d)
        with Cons.prems \<open>contributes_languages x = Some ls\<close> Inr show ?thesis
          by (cases "make_config h id' x d") (auto simp: bind_err_def)
      qed
    qed
  qed
qed

lemma getLanguageConfigById_again:
  assumes "getLanguageConfigById h cached id' fileName' = Inr (Some language, cached')"
  shows "getLanguageConfigById h cached' id' fileName' = Inr (Some language, cached')"
proof (cases "cached (id' @ ''+'' @ toLowerCase (extname h fileName'))")
  case None
  then have "scan_extensions h id' (toLowerCase (extname h fileName')) cached (extensions_all h) =
          Inr (Some language, cached')"
    using assms by (simp add: getLanguageConfigById_def Let_def)
  from scan_extensions_cache[OF this]
  show ?thesis by (simp add: getLanguageConfigById_def Let_def)
next
  case (Some config)
  then show ?thesis
    using assms by (simp add: getLanguageConfigById_def Let_def)
qed

lemma template_Copyright:
  "CopyrightMap k = Some template \<Longrightarrow> \<exists>rest. template hl yr = ''Copyright'' @ rest"
proof -
  assume a: "CopyrightMap k = Some template"
  have "\<exists>rest. apache hl yr = ''Copyright'' @ rest"
    using apache_eq by (metis append_Cons append_Nil append_assoc)
  moreover have "\<exists>rest. bsd hl yr = ''Copyright'' @ rest"
    using bsd_eq by (metis append_Cons append_Nil append_assoc)
  moreover have "\<exists>rest. mit hl yr = ''Copyright'' @ rest"
    using mit_eq by (metis append_Cons append_Nil append_assoc)
  moreover have "\<exists>rest. gpl3 hl yr = ''Copyright'' @ rest"
    using gpl3_eq by (metis append_Cons append_Nil append_assoc)
  ultimately show ?thesis
    using a by (auto simp: CopyrightMap_cases split: if_splits)
qed

lemma detected_in_document:
  assumes c: "content doc' = pre @ tok @ between @ ''Copyright'' @ rest"
    and pre: "length (filter (\<lambda>ch. ch = CHR 0x0A) pre) \<le> 1" "pre = [] \<or> last pre = CHR 0x0A"
    and tok: "CHR 0x0A \<notin> set tok"
    and btw: "length (filter (\<lambda>ch. ch = CHR 0x0A) between) \<le> 1"
    and lines: "across \<or> (\<forall>ch \<in> set between. \<not> isLineTerminator ch)"
  shows "comment_then_copyright across tok (getText_lines doc' 10)"
proof -
  have t0: "filter (\<lambda>ch. ch = CHR 0x0A) tok = []"
    using tok by (auto simp: filter_empty_conv)
  have "content doc' = (pre @ tok @ between @ ''Copyright'') @ rest"
    using c by simp
  moreover have "length (filter (\<lambda>ch. ch = CHR 0x0A) (pre @ tok @ between @ ''Copyright'')) < 10"
    using pre(1) btw by (simp add: t0)
  ultimately obtain v' where v: "getText_lines doc' 10 = (pre @ tok @ between @ ''Copyright'') @ v'"
    using getText_lines_prefix by blast
  have "getText_lines doc' 10 = pre @ tok @ between @ ''Copyright'' @ v' \<and> at_line_start pre \<and>
        eq_ignoring_case tok tok \<and> (across \<or> (\<forall>ch \<in> set between. \<not> isLineTerminator ch)) \<and>
        eq_ignoring_case ''Copyright'' ''Copyright''"
    using v pre(2) lines by (auto simp: at_line_start_def eq_ignoring_case_def isLineTerminator_def)
  then show ?thesis
    unfolding comment_then_copyright_def by blast
qed

lemma header_detected:
  assumes body: "template (holder d) (year d) = ''Copyright'' @ rest"
    and com: "comments lc = Some c"
    and fh: "formatHeader template d lc u = Inr header"
    and wrapped: "(\<not> u \<and> blockComment c \<noteq> None) \<or> truthy (lineComment c)"
    and nb: "\<And>b0 b1. blockComment c = Some (b0, b1) \<Longrightarrow> CHR 0x0A \<notin> set b0"
    and nl: "\<And>t. lineComment c = Some t \<Longrightarrow> CHR 0x0A \<notin> set t"
    and doc: "content doc' = pre @ header @ post"
    and pre: "length (filter (\<lambda>ch. ch = CHR 0x0A) pre) \<le> 1" "pre = [] \<or> last pre = CHR 0x0A"
  shows "hasCopyright doc' (Some c) = Inr True"
proof (cases "\<not> u \<and> blockComment c \<noteq> None")
  case True
  then obtain b0 b1 where b: "blockComment c = Some (b0, b1)" by auto
  have "\<exists>between z. header = b0 @ between @ ''Copyright'' @ z \<and>
          length (filter (\<lambda>ch. ch = CHR 0x0A) between) \<le> 1"
  proof (cases "b0 = ''/*''")
    case t: True
    have "header = formatString (template (holder d) (year d)) ''/**'' '' * '' ('' '' @ b1)"
      using fh True b t unfolding formatHeader_Some[OF com] by simp
    then obtain z where "header = ''/**'' @ NL @ '' * '' @ ''Copyright'' @ z"
      using formatString_Copyright[OF body, of "''/**''" "'' * ''" "'' '' @ b1"] by auto
    then have "header = b0 @ (''*'' @ NL @ '' * '') @ ''Copyright'' @ z \<and>
          length (filter (\<lambda>ch. ch = CHR 0x0A) (''*'' @ NL @ '' * '')) \<le> 1"
      using t by simp
    then show ?thesis by blast
  next
    case f: False
    have h: "header = formatString (template (holder d) (year d)) b0 [] b1"
      using fh True b f unfolding formatHeader_Some[OF com] by simp
    obtain z where z: "header = (if b0 \<noteq> [] then b0 @ NL else []) @ [] @ ''Copyright'' @ z"
      using formatString_Copyright[OF body, of b0 "[]" b1] h by auto
    show ?thesis
    proof (cases "b0 = []")
      case True
      then have "header = b0 @ [] @ ''Copyright'' @ z \<and>
          length (filter (\<lambda>ch. ch = CHR 0x0A) []) \<le> 1"
        using z by simp
      then show ?thesis by blast
    next
      case False
      then have "header = b0 @ NL @ ''Copyright'' @ z \<and>
          length (filter (\<lambda>ch. ch = CHR 0x0A) NL) \<le> 1"
        using z by simp
      then show ?thesis by blast
    qed
  qed
  then obtain between z where z: "header = b0 @ between @ ''Copyright'' @ z"
    "length (filter (\<lambda>ch. ch = CHR 0x0A) between) \<le> 1"
    by blast
  have "content doc' = pre @ b0 @ between @ ''Copyright'' @ (z @ post)"
    using doc z by simp
  from detected_in_document[OF this pre nb[OF b] z(2), of True]
  have "comment_then_copyright True b0 (getText_lines doc' 10)" by simp
  then show ?thesis
    unfolding hasCopyright_eq using b by simp
next
  case False
  with wrapped have tr: "truthy (lineComment c)" by blast
  then obtain t where t: "lineComment c = Some t"
    by (cases "lineComment c") (auto simp: truthy_def)
  have "header = formatString (template (holder d) (year d)) [] (t @ '' '') []"
    using fh False tr t unfolding formatHeader_Some[OF com] by auto
  then obtain z where "header = (t @ '' '') @ ''Copyright'' @ z"
    using formatString_Copyright[OF body, of "[]" "t @ '' ''" "[]"] by auto
  then have "content doc' = pre @ t @ '' '' @ ''Copyright'' @ (z @ post)"
    using doc by simp
  from detected_in_document[OF this pre nl[OF t], of False]
  have "comment_then_copyright False t (getText_lines doc' 10)"
    by (simp add: isLineTerminator_def)
  then show ?thesis
    unfolding hasCopyright_eq using t tr by simp
qed

lemma insertHeader_found:
  assumes "CopyrightMap (license (getExtensionConfig h)) = Some template"
    and "getLanguageConfigById h cached (languageId doc) (fileName doc) = Inr (Some language, cached')"
    and "hasCopyright doc (comments (vsconfig language)) = Inr True"
  shows "insertHeader h cached (Some doc) = (Inr AlreadyHasCopyright, cached')"
  using assms by (simp add: insertHeader_def Let_def)

lemma insertHeader_inserts:
  assumes "CopyrightMap (license (getExtensionConfig h)) = Some template"
    and "getLanguageConfigById h cached (languageId doc) (fileName doc) = Inr (Some language, cached')"
    and "hasCopyright doc (comments (vsconfig language)) = Inr False"
    and "formatHeader template (data (getExtensionConfig h)) (vsconfig language)
           (useLineComment (getExtensionConfig h)) = Inr header"
  shows "insertHeader h cached (Some doc) =
     (Inr (Inserted (calculateInsertLineIndex h doc language)
            (if calculateInsertLineIndex h doc language = lineCount doc then NL @ header else header)),
      cached')"
proof -
  have "header \<noteq> []" using assms(4) formatHeader_not_Nil by metis
  then show ?thesis
    using assms by (simp add: insertHeader_def Let_def)
qed

lemma insert_at_same_file:
  "languageId (insert_at doc line t) = languageId doc \<and> fileName (insert_at doc line t) = fileName doc"
  by (simp add: insert_at_def)

text \<open>
  C4, as the program has it. Let the language of the document resolve to a comment rule that
  the formatter uses to wrap the header: a block comment when line comments are not forced,
  or else a line comment token that is not empty; and let the tokens have no line feed. Then
  a second run of the command leaves the state as the first run left it, and when the first
  run has inserted a header, the second run ends with the report that the document already
  has one.
\<close>

theorem insertHeader_twice:
  assumes res: "getLanguageConfigById h cached (languageId doc) (fileName doc) =
                  Inr (Some language, cached')"
    and com: "comments (vsconfig language) = Some c"
    and wrapped: "(\<not> useLineComment (getExtensionConfig h) \<and> blockComment c \<noteq> None) \<or>
                  truthy (lineComment c)"
    and nb: "\<forall>b0 b1. blockComment c = Some (b0, b1) \<longrightarrow> CHR 0x0A \<notin> set b0"
    and nl: "\<forall>t. lineComment c = Some t \<longrightarrow> CHR 0x0A \<notin> set t"
  shows "run h (run h (cached, Some doc)) = run h (cached, Some doc) \<and>
         (\<forall>line body. fst (insertHeader h cached (Some doc)) = Inr (Inserted line body) \<longrightarrow>
            insertHeader h cached' (Some (insert_at doc line body)) =
              (Inr AlreadyHasCopyright, cached'))"
proof (cases "CopyrightMap (license (getExtensionConfig h))")
  case None
  have "insertHeader h k e = (Inr UnsupportedLicense, k)" for k e
    using None by (rule insertHeader_unsupported)
  then show ?thesis by (simp add: run_def)
next
  case (Some template)
  note again = getLanguageConfigById_again[OF res]
  obtain found where found: "hasCopyright doc (comments (vsconfig language)) = Inr found"
    unfolding com hasCopyright_eq by blast
  show ?thesis
  proof (cases found)
    case True
    have "insertHeader h cached (Some doc) = (Inr AlreadyHasCopyright, cached')"
      using insertHeader_found[OF Some res] found True by simp
    moreover have "insertHeader h cached' (Some doc) = (Inr AlreadyHasCopyright, cached')"
      using insertHeader_found[OF Some again] found True by simp
    ultimately show ?thesis by (simp add: run_def)
  next
    case False
    let ?cfg = "getExtensionConfig h"
    let ?line = "calculateInsertLineIndex h doc language"
    obtain header where fh: "formatHeader template (data ?cfg) (vsconfig language)
           (useLineComment ?cfg) = Inr header"
      using formatHeader_Some[OF com] by blast
    let ?body = "if ?line = lineCount doc then NL @ header else header"
    let ?doc' = "insert_at doc ?line ?body"
    have first: "insertHeader h cached (Some doc) = (Inr (Inserted ?line ?body), cached')"
      using insertHeader_inserts[OF Some res _ fh] found False by simp
    obtain pre post where shape: "content ?doc' = pre @ header @ post"
      "length (filter (\<lambda>ch. ch = CHR 0x0A) pre) \<le> 1" "pre = [] \<or> last pre = CHR 0x0A"
      using insert_at_shape[OF calculateInsertLineIndex_le[of h doc language], where doc = doc and header = header]
      by blast
    obtain rest where body: "template (holder (data ?cfg)) (year (data ?cfg)) = ''Copyright'' @ rest"
      using template_Copyright[OF Some] by blast
    have det: "hasCopyright ?doc' (Some c) = Inr True"
      using header_detected[OF body com fh wrapped _ _ shape] nb nl by blast
    have again': "getLanguageConfigById h cached' (languageId ?doc') (fileName ?doc') =
                    Inr (Some language, cached')"
      using again by (simp add: insert_at_same_file)
    have second: "insertHeader h cached' (Some ?doc') = (Inr AlreadyHasCopyright, cached')"
      using insertHeader_found[OF Some again'] det com by simp
    show ?thesis
      using first second by (simp add: run_def)
  qed
qed

theorem insertHeader_twice_witness:
  "getLanguageConfigById example_host Map.empty (languageId one_line_cpp) (fileName one_line_cpp) =
     Inr (Some cpp_config, [''cpp+.cpp'' \<mapsto> cpp_config]) \<and>
   map_option content (snd (run example_host (run example_host (Map.empty, Some one_line_cpp)))) =
     Some (''/**'' @ NL @
           '' * Copyright (c) 2019 Google LLC All rights reserved.'' @ NL @
           '' * Use of this source code is governed by a BSD-style'' @ NL @
           '' * license that can be found in the LICENSE file.'' @ NL @
           '' */'' @ NL @ NL @ ''int x;'')"
proof -
  let ?c = "\<lparr>lineComment = Some ''//'', blockComment = Some (''/*'', ''*/'')\<rparr>"
  have res: "getLanguageConfigById example_host Map.empty (languageId one_line_cpp) (fileName one_line_cpp) =
     Inr (Some cpp_config, [''cpp+.cpp'' \<mapsto> cpp_config])"
    by (simp add: getLanguageConfigById_def example_host_def toLowerCase_def toLowerCase_unit_def
          example_extname_def cpp_extension_def make_config_def bind_err_def truthy_def
          loadLanguageConfiguration_def one_line_cpp_def cpp_config_def)
  have com: "comments (vsconfig cpp_config) = Some ?c"
    by (simp add: cpp_config_def both_comments_def)
  have wrapped: "(\<not> useLineComment (getExtensionConfig example_host) \<and> blockComment ?c \<noteq> None) \<or>
                  truthy (lineComment ?c)"
    by (simp add: truthy_def)
  have nb: "\<forall>b0 b1. blockComment ?c = Some (b0, b1) \<longrightarrow> CHR 0x0A \<notin> set b0"
    by simp
  have nl: "\<forall>t. lineComment ?c = Some t \<longrightarrow> CHR 0x0A \<notin> set t"
    by simp
  have once: "map_option content (snd (run example_host (Map.empty, Some one_line_cpp))) =
     Some (''/**'' @ NL @
           '' * Copyright (c) 2019 Google LLC All rights reserved.'' @ NL @
           '' * Use of this source code is governed by a BSD-style'' @ NL @
           '' * license that can be found in the LICENSE file.'' @ NL @
           '' */'' @ NL @ NL @ ''int x;'')"
    by code_simp
  have "run example_host (run example_host (Map.empty, Some one_line_cpp)) =
          run example_host (Map.empty, Some one_line_cpp)"
    using insertHeader_twice[OF res com wrapped nb nl] by (rule conjunct1)
  then show ?thesis
    using res once by simp
qed

text \<open>
  C4 as stated fails when the header is inserted with no comment around it. With line
  comments forced and a language that has a block comment only, the first run inserts the
  bare license text, the detector does not find it, and the second run inserts it again.
\<close>

theorem insertHeader_twice_unwrapped:
  "map_option content (snd (run line_comment_host (Map.empty, Some css_doc))) =
     Some (bare_bsd_header @ ''body { }'') \<and>
   map_option content (snd (run line_comment_host (run line_comment_host (Map.empty, Some css_doc)))) =
     Some (bare_bsd_header @ bare_bsd_header @ ''body { }'')"
  by code_simp

end
